theory Spec2Isabelle
  imports Complex_Main "HOL-Library.Monad_Syntax"
begin

section \<open>JavaScript numbers\<close>

text \<open>
  The calculator of \<^verbatim>\<open>src/js/calculator.js\<close> works on JavaScript numbers. A number is
  modelled as a finite real or one of the three special values of IEEE 754. The special
  values follow ECMAScript: a \<^verbatim>\<open>NaN\<close> operand gives \<^verbatim>\<open>NaN\<close>, every comparison with
  \<^verbatim>\<open>NaN\<close> is false, a nonzero number divided by zero is an infinity. The sign of zero is
  not modelled.

  The calculator is embedded twice. The operations of this section are exact on finite
  values; the first embedding uses them, and its runs on concrete numbers are evaluated
  in full. The second embedding takes the rounding of the arithmetic as a parameter,
  and what is proved of it for every arithmetic with the properties of binary64 holds
  of the program.
\<close>

datatype jsnum = Fin real | PInf | NInf | NaN

fun js_neg :: "jsnum \<Rightarrow> jsnum" where
  "js_neg (Fin a) = Fin (- a)"
| "js_neg PInf = NInf"
| "js_neg NInf = PInf"
| "js_neg NaN = NaN"

fun js_add :: "jsnum \<Rightarrow> jsnum \<Rightarrow> jsnum" where
  "js_add (Fin a) (Fin b) = Fin (a + b)"
| "js_add NaN _ = NaN"
| "js_add _ NaN = NaN"
| "js_add PInf NInf = NaN"
| "js_add NInf PInf = NaN"
| "js_add PInf _ = PInf"
| "js_add _ PInf = PInf"
| "js_add NInf _ = NInf"
| "js_add _ NInf = NInf"

definition js_sub :: "jsnum \<Rightarrow> jsnum \<Rightarrow> jsnum" where
  "js_sub a b = js_add a (js_neg b)"

text \<open>The product of an infinity and a finite factor takes the sign of the product;
  an infinity times zero is \<^verbatim>\<open>NaN\<close>.\<close>

definition signed_inf :: "jsnum \<Rightarrow> real \<Rightarrow> jsnum" where
  "signed_inf i s = (if s = 0 then NaN else if 0 < s then i else js_neg i)"

fun js_mul :: "jsnum \<Rightarrow> jsnum \<Rightarrow> jsnum" where
  "js_mul (Fin a) (Fin b) = Fin (a * b)"
| "js_mul NaN _ = NaN"
| "js_mul _ NaN = NaN"
| "js_mul PInf (Fin b) = signed_inf PInf b"
| "js_mul NInf (Fin b) = signed_inf NInf b"
| "js_mul (Fin a) PInf = signed_inf PInf a"
| "js_mul (Fin a) NInf = signed_inf NInf a"
| "js_mul PInf PInf = PInf"
| "js_mul NInf NInf = PInf"
| "js_mul PInf NInf = NInf"
| "js_mul NInf PInf = NInf"

text \<open>Division: a finite nonzero dividend over zero is an infinity of the dividend's
  sign (the only zero of the model is the positive one), zero over zero is \<^verbatim>\<open>NaN\<close>.\<close>

fun js_div :: "jsnum \<Rightarrow> jsnum \<Rightarrow> jsnum" where
  "js_div (Fin a) (Fin b) =
     (if b \<noteq> 0 then Fin (a / b) else if 0 < a then PInf else if a < 0 then NInf else NaN)"
| "js_div NaN _ = NaN"
| "js_div _ NaN = NaN"
| "js_div (Fin a) PInf = Fin 0"
| "js_div (Fin a) NInf = Fin 0"
| "js_div PInf (Fin b) = (if 0 \<le> b then PInf else NInf)"
| "js_div NInf (Fin b) = (if 0 \<le> b then NInf else PInf)"
| "js_div PInf PInf = NaN"
| "js_div PInf NInf = NaN"
| "js_div NInf PInf = NaN"
| "js_div NInf NInf = NaN"

fun js_lt :: "jsnum \<Rightarrow> jsnum \<Rightarrow> bool" where
  "js_lt (Fin a) (Fin b) = (a < b)"
| "js_lt NaN _ = False"
| "js_lt _ NaN = False"
| "js_lt _ NInf = False"
| "js_lt PInf _ = False"
| "js_lt NInf _ = True"
| "js_lt _ PInf = True"

definition js_gt :: "jsnum \<Rightarrow> jsnum \<Rightarrow> bool" where
  "js_gt a b = js_lt b a"

text \<open>\<^verbatim>\<open>a >= b\<close>: false as soon as an operand is \<^verbatim>\<open>NaN\<close>.\<close>

definition js_ge :: "jsnum \<Rightarrow> jsnum \<Rightarrow> bool" where
  "js_ge a b = (a \<noteq> NaN \<and> b \<noteq> NaN \<and> \<not> js_lt a b)"

text \<open>Strict equality \<^verbatim>\<open>===\<close> on numbers: \<^verbatim>\<open>NaN\<close> equals nothing, itself included.\<close>

definition js_eq :: "jsnum \<Rightarrow> jsnum \<Rightarrow> bool" where
  "js_eq a b = (a \<noteq> NaN \<and> a = b)"

text \<open>\<^verbatim>\<open>!x\<close> on a number: zero and \<^verbatim>\<open>NaN\<close> are the falsy numbers.\<close>

definition js_not :: "jsnum \<Rightarrow> bool" where
  "js_not a = (a = Fin 0 \<or> a = NaN)"

text \<open>\<^verbatim>\<open>Math.round\<close> rounds to the nearest integer, a tie towards plus infinity.\<close>

fun js_round :: "jsnum \<Rightarrow> jsnum" where
  "js_round (Fin a) = Fin (of_int \<lfloor>a + 1 / 2\<rfloor>)"
| "js_round PInf = PInf"
| "js_round NInf = NInf"
| "js_round NaN = NaN"


text \<open>
  \<^verbatim>\<open>Math.pow\<close>. For a finite base and a finite nonzero exponent: a zero base gives zero
  or plus infinity by the sign of the exponent, an integral exponent gives the integer
  power, a negative base with a non-integral exponent gives \<^verbatim>\<open>NaN\<close>, and a positive base
  gives the real power.
\<close>

definition is_integral :: "real \<Rightarrow> bool" where
  "is_integral y = (y = of_int \<lfloor>y\<rfloor>)"

definition fin_pow :: "real \<Rightarrow> real \<Rightarrow> jsnum" where
  "fin_pow x y =
     (if x = 0 then (if 0 < y then Fin 0 else PInf)
      else if is_integral y then Fin (power_int x \<lfloor>y\<rfloor>)
      else if x < 0 then NaN
      else Fin (x powr y))"

fun js_pow :: "jsnum \<Rightarrow> jsnum \<Rightarrow> jsnum" where
  "js_pow _ NaN = NaN"
| "js_pow b (Fin y) =
     (if y = 0 then Fin 1
      else case b of
        NaN \<Rightarrow> NaN
      | PInf \<Rightarrow> (if 0 < y then PInf else Fin 0)
      | NInf \<Rightarrow> (if 0 < y then (if is_integral y \<and> odd \<lfloor>y\<rfloor> then NInf else PInf) else Fin 0)
      | Fin x \<Rightarrow> fin_pow x y)"
| "js_pow NaN _ = NaN"
| "js_pow (Fin x) PInf = (if 1 < \<bar>x\<bar> then PInf else if \<bar>x\<bar> = 1 then NaN else Fin 0)"
| "js_pow (Fin x) NInf = (if 1 < \<bar>x\<bar> then Fin 0 else if \<bar>x\<bar> = 1 then NaN else PInf)"
| "js_pow _ PInf = PInf"
| "js_pow _ NInf = Fin 0"

section \<open>The calculator in exact arithmetic\<close>

subsection \<open>Inflation projection\<close>


subsection \<open>Future value of a step-up plan\<close>

text \<open>
  The inner loop \<^verbatim>\<open>for (let month = 0; month < 12; month++)\<close> adds the twelve compounded
  contributions of one year to \<^verbatim>\<open>futureValue\<close>.
\<close>

definition stepUpFV_months :: "jsnum \<Rightarrow> jsnum \<Rightarrow> jsnum \<Rightarrow> jsnum \<Rightarrow> jsnum" where
  "stepUpFV_months currentSIP monthlyRate monthsRemaining futureValue =
     fold (\<lambda>month fv.
             let totalMonths = js_sub monthsRemaining (Fin (real month))
             in js_add fv (js_mul currentSIP (js_pow (js_add (Fin 1) monthlyRate) totalMonths)))
          [0..<12] futureValue"

text \<open>
  The outer loop \<^verbatim>\<open>for (let year = 0; year < years; year++)\<close>. The counter starts at 0 and
  grows by one, so it is a natural number; the bound \<^verbatim>\<open>years\<close> is any number, and with
  \<^verbatim>\<open>years = Infinity\<close> the loop never ends, which is the value \<open>None\<close>.
\<close>

partial_function (option) stepUpFV_years ::
  "jsnum \<Rightarrow> jsnum \<Rightarrow> jsnum \<Rightarrow> nat \<Rightarrow> jsnum \<Rightarrow> jsnum \<Rightarrow> jsnum option" where
  "stepUpFV_years years monthlyRate annualStepUp year futureValue currentSIP =
     (if js_lt (Fin (real year)) years then
        (let monthsRemaining = js_mul (js_sub years (Fin (real year))) (Fin 12)
         in stepUpFV_years years monthlyRate annualStepUp (Suc year)
              (stepUpFV_months currentSIP monthlyRate monthsRemaining futureValue)
              (js_mul currentSIP (js_add (Fin 1) annualStepUp)))
      else Some futureValue)"

definition calculateStepUpFutureValue ::
  "jsnum \<Rightarrow> jsnum \<Rightarrow> jsnum \<Rightarrow> jsnum \<Rightarrow> jsnum option" where
  "calculateStepUpFutureValue initialSIP years annualRate stepUpRate =
     (let monthlyRate = js_div (js_div annualRate (Fin 12)) (Fin 100);
          annualStepUp = js_div stepUpRate (Fin 100)
      in stepUpFV_years years monthlyRate annualStepUp 0 (Fin 0) initialSIP)"

subsection \<open>The step-up solver\<close>

text \<open>
  The \<^verbatim>\<open>while (high - low > tolerance)\<close> loop of \<^verbatim>\<open>calculateStepUpSIP\<close>, with the state
  \<^verbatim>\<open>low\<close>, \<^verbatim>\<open>high\<close>, \<^verbatim>\<open>initialSIP\<close>. A loop that does not end is \<open>None\<close>. The
  constants \<^verbatim>\<open>monthlyRate\<close> and \<^verbatim>\<open>annualStepUp\<close> that the function declares are never read
  and are left out.
\<close>

definition tolerance :: jsnum where
  "tolerance = Fin 1"

partial_function (option) stepUpSIP_search ::
  "jsnum \<Rightarrow> jsnum \<Rightarrow> jsnum \<Rightarrow> jsnum \<Rightarrow> jsnum \<Rightarrow> jsnum \<Rightarrow> jsnum \<Rightarrow> jsnum option" where
  "stepUpSIP_search targetAmount years annualRate stepUpRate low high initialSIP =
     (if js_gt (js_sub high low) tolerance then
        (let mid = js_div (js_add low high) (Fin 2)
         in do {
              fv \<leftarrow> calculateStepUpFutureValue mid years annualRate stepUpRate;
              if js_lt fv targetAmount
              then stepUpSIP_search targetAmount years annualRate stepUpRate mid high mid
              else stepUpSIP_search targetAmount years annualRate stepUpRate low mid mid
            })
      else Some initialSIP)"

definition calculateStepUpSIP :: "jsnum \<Rightarrow> jsnum \<Rightarrow> jsnum \<Rightarrow> jsnum \<Rightarrow> jsnum option" where
  "calculateStepUpSIP targetAmount years annualRate stepUpRate =
     map_option js_round
       (stepUpSIP_search targetAmount years annualRate stepUpRate
          (Fin 0) (js_div targetAmount (Fin 12)) (Fin 0))"

subsection \<open>The level solver\<close>

definition calculateMonthlySIP :: "jsnum \<Rightarrow> jsnum \<Rightarrow> jsnum \<Rightarrow> jsnum \<Rightarrow> jsnum option" where
  "calculateMonthlySIP targetAmount years annualRate stepUpRate =
     (let n = js_mul years (Fin 12);
          i = js_div (js_div annualRate (Fin 12)) (Fin 100)
      in if js_eq targetAmount (Fin 0) \<or> js_eq n (Fin 0) \<or> js_eq i (Fin 0) then Some (Fin 0)
         else if js_not stepUpRate \<or> js_eq stepUpRate (Fin 0) then
           (let futureValueFactor =
                  js_mul (js_div (js_sub (js_pow (js_add (Fin 1) i) n) (Fin 1)) i)
                         (js_add (Fin 1) i);
                monthlySIP = js_div targetAmount futureValueFactor
            in Some (js_round monthlySIP))
         else calculateStepUpSIP targetAmount years annualRate stepUpRate)"

subsection \<open>Total investment\<close>

partial_function (option) totalInvestment_years ::
  "jsnum \<Rightarrow> jsnum \<Rightarrow> nat \<Rightarrow> jsnum \<Rightarrow> jsnum \<Rightarrow> jsnum option" where
  "totalInvestment_years years annualStepUp year totalInvestment currentSIP =
     (if js_lt (Fin (real year)) years then
        totalInvestment_years years annualStepUp (Suc year)
          (js_add totalInvestment (js_mul currentSIP (Fin 12)))
          (js_mul currentSIP (js_add (Fin 1) annualStepUp))
      else Some totalInvestment)"

definition calculateTotalInvestment :: "jsnum \<Rightarrow> jsnum \<Rightarrow> jsnum \<Rightarrow> jsnum option" where
  "calculateTotalInvestment monthlySIP years stepUpRate =
     (if js_not stepUpRate \<or> js_eq stepUpRate (Fin 0)
      then Some (js_mul (js_mul monthlySIP years) (Fin 12))
      else let annualStepUp = js_div stepUpRate (Fin 100)
           in totalInvestment_years years annualStepUp 0 (Fin 0) monthlySIP)"


section \<open>The calculator in floating-point arithmetic\<close>

text \<open>
  The program computes in IEEE 754 doubles: the result of \<^verbatim>\<open>+\<close>, \<^verbatim>\<open>-\<close>, \<^verbatim>\<open>*\<close> and \<^verbatim>\<open>/\<close> on
  finite operands is the exact result rounded to a double, or an infinity on overflow,
  and \<^verbatim>\<open>Math.pow\<close> is an approximation that ECMAScript leaves to the implementation.
  This second embedding takes the arithmetic as a parameter: \<open>rnd A x\<close> is the number that
  stands for the exact result \<open>x\<close>, and \<open>powf A x y\<close> is \<^verbatim>\<open>Math.pow\<close> on a finite base \<open>x\<close> and
  a finite nonzero exponent \<open>y\<close>. Whatever is proved for every \<open>A\<close>, or for every \<open>A\<close> with
  a property that binary64 arithmetic has, holds of the program. The special values,
  the comparisons, \<^verbatim>\<open>Math.round\<close> and \<^verbatim>\<open>Math.max\<close> do not round and are those of the first
  section. The sign of zero is not part of the model.
\<close>

record arith =
  rnd :: "real \<Rightarrow> jsnum"
  powf :: "real \<Rightarrow> real \<Rightarrow> jsnum"

fun add_fp :: "arith \<Rightarrow> jsnum \<Rightarrow> jsnum \<Rightarrow> jsnum" where
  "add_fp A (Fin a) (Fin b) = rnd A (a + b)"
| "add_fp A a b = js_add a b"

definition sub_fp :: "arith \<Rightarrow> jsnum \<Rightarrow> jsnum \<Rightarrow> jsnum" where
  "sub_fp A a b = add_fp A a (js_neg b)"

fun mul_fp :: "arith \<Rightarrow> jsnum \<Rightarrow> jsnum \<Rightarrow> jsnum" where
  "mul_fp A (Fin a) (Fin b) = rnd A (a * b)"
| "mul_fp A a b = js_mul a b"

fun div_fp :: "arith \<Rightarrow> jsnum \<Rightarrow> jsnum \<Rightarrow> jsnum" where
  "div_fp A (Fin a) (Fin b) = (if b \<noteq> 0 then rnd A (a / b) else js_div (Fin a) (Fin b))"
| "div_fp A a b = js_div a b"

fun pow_fp :: "arith \<Rightarrow> jsnum \<Rightarrow> jsnum \<Rightarrow> jsnum" where
  "pow_fp A (Fin x) (Fin y) = (if y = 0 then Fin 1 else powf A x y)"
| "pow_fp A b e = js_pow b e"

text \<open>The arithmetic of the first embedding: nothing is rounded.\<close>

definition exact_arith :: arith where
  "exact_arith = \<lparr> rnd = Fin, powf = fin_pow \<rparr>"

subsection \<open>Properties of the arithmetic\<close>

text \<open>
  Three properties of binary64 arithmetic with rounding to nearest, and two properties of a
  \<^verbatim>\<open>Math.pow\<close> that is accurate to a few units in the last place. Integers up to \<open>2^53\<close> in
  absolute value are doubles, so an operation whose exact result is such an integer
  returns it. Rounding is monotone. Between \<open>2^-1000\<close> and \<open>2^1000\<close> in absolute value, a
  result is finite and within the relative error \<open>2^-52\<close> of the exact one.
\<close>

definition exact_ints :: "arith \<Rightarrow> bool" where
  "exact_ints A = (\<forall>k::int. \<bar>k\<bar> \<le> 2 ^ 53 \<longrightarrow> rnd A (of_int k) = Fin (of_int k))"


definition accurate :: "arith \<Rightarrow> bool" where
  "accurate A =
     (\<forall>x. 1 / 2 ^ 1000 \<le> \<bar>x\<bar> \<and> \<bar>x\<bar> \<le> 2 ^ 1000 \<longrightarrow>
          (\<exists>v. rnd A x = Fin v \<and> \<bar>v - x\<bar> \<le> \<bar>x\<bar> / 2 ^ 52))"

definition pow_accurate :: "arith \<Rightarrow> bool" where
  "pow_accurate A =
     (\<forall>x y. 1 \<le> x \<and> x \<le> 2 \<and> 0 < y \<and> y \<le> 1000 \<longrightarrow>
          (\<exists>v. powf A x y = Fin v \<and> \<bar>v - x powr y\<bar> \<le> x powr y / 2 ^ 50))"





subsection \<open>The functions of the calculator\<close>

definition calculateInflationAdjustedAmount_fp ::
  "arith \<Rightarrow> jsnum \<Rightarrow> jsnum \<Rightarrow> jsnum \<Rightarrow> jsnum" where
  "calculateInflationAdjustedAmount_fp A currentPrice inflationRate years =
     (if js_eq currentPrice (Fin 0) \<or> js_eq years (Fin 0) then currentPrice
      else let r = div_fp A inflationRate (Fin 100);
               futureValue = mul_fp A currentPrice (pow_fp A (add_fp A (Fin 1) r) years)
           in js_round futureValue)"

definition stepUpFV_months_fp :: "arith \<Rightarrow> jsnum \<Rightarrow> jsnum \<Rightarrow> jsnum \<Rightarrow> jsnum \<Rightarrow> jsnum" where
  "stepUpFV_months_fp A currentSIP monthlyRate monthsRemaining futureValue =
     fold (\<lambda>month fv.
             let totalMonths = sub_fp A monthsRemaining (Fin (real month))
             in add_fp A fv
                  (mul_fp A currentSIP (pow_fp A (add_fp A (Fin 1) monthlyRate) totalMonths)))
          [0..<12] futureValue"

text \<open>
  One pass of the loop \<^verbatim>\<open>for (let year = 0; year < years; year++)\<close> of
  \<^verbatim>\<open>calculateStepUpFutureValue\<close>, on the state \<^verbatim>\<open>year\<close>, \<^verbatim>\<open>futureValue\<close>, \<^verbatim>\<open>currentSIP\<close>. The
  counter is a number like any other: \<^verbatim>\<open>year++\<close> is an addition of the arithmetic.
\<close>

definition fv_pass ::
  "arith \<Rightarrow> jsnum \<Rightarrow> jsnum \<Rightarrow> jsnum \<Rightarrow> jsnum \<times> jsnum \<times> jsnum \<Rightarrow> jsnum \<times> jsnum \<times> jsnum" where
  "fv_pass A years monthlyRate annualStepUp state =
     (case state of (year, futureValue, currentSIP) \<Rightarrow>
        let monthsRemaining = mul_fp A (sub_fp A years year) (Fin 12)
        in (add_fp A year (Fin 1),
            stepUpFV_months_fp A currentSIP monthlyRate monthsRemaining futureValue,
            mul_fp A currentSIP (add_fp A (Fin 1) annualStepUp)))"

partial_function (option) stepUpFV_years_fp ::
  "arith \<Rightarrow> jsnum \<Rightarrow> jsnum \<Rightarrow> jsnum \<Rightarrow> jsnum \<times> jsnum \<times> jsnum \<Rightarrow> jsnum option" where
  "stepUpFV_years_fp A years monthlyRate annualStepUp state =
     (if js_lt (fst state) years
      then stepUpFV_years_fp A years monthlyRate annualStepUp
             (fv_pass A years monthlyRate annualStepUp state)
      else Some (fst (snd state)))"

definition calculateStepUpFutureValue_fp ::
  "arith \<Rightarrow> jsnum \<Rightarrow> jsnum \<Rightarrow> jsnum \<Rightarrow> jsnum \<Rightarrow> jsnum option" where
  "calculateStepUpFutureValue_fp A initialSIP years annualRate stepUpRate =
     (let monthlyRate = div_fp A (div_fp A annualRate (Fin 12)) (Fin 100);
          annualStepUp = div_fp A stepUpRate (Fin 100)
      in stepUpFV_years_fp A years monthlyRate annualStepUp (Fin 0, Fin 0, initialSIP))"




text \<open>One pass of the loop of \<^verbatim>\<open>calculateTotalInvestment\<close>, on the state \<^verbatim>\<open>year\<close>,
  \<^verbatim>\<open>totalInvestment\<close>, \<^verbatim>\<open>currentSIP\<close>: twelve contributions are added, then the step is
  applied.\<close>

definition invest_pass ::
  "arith \<Rightarrow> jsnum \<Rightarrow> jsnum \<times> jsnum \<times> jsnum \<Rightarrow> jsnum \<times> jsnum \<times> jsnum" where
  "invest_pass A annualStepUp state =
     (case state of (year, totalInvestment, currentSIP) \<Rightarrow>
        (add_fp A year (Fin 1),
         add_fp A totalInvestment (mul_fp A currentSIP (Fin 12)),
         mul_fp A currentSIP (add_fp A (Fin 1) annualStepUp)))"

partial_function (option) totalInvestment_years_fp ::
  "arith \<Rightarrow> jsnum \<Rightarrow> jsnum \<Rightarrow> jsnum \<times> jsnum \<times> jsnum \<Rightarrow> jsnum option" where
  "totalInvestment_years_fp A years annualStepUp state =
     (if js_lt (fst state) years
      then totalInvestment_years_fp A years annualStepUp (invest_pass A annualStepUp state)
      else Some (fst (snd state)))"

definition calculateTotalInvestment_fp ::
  "arith \<Rightarrow> jsnum \<Rightarrow> jsnum \<Rightarrow> jsnum \<Rightarrow> jsnum option" where
  "calculateTotalInvestment_fp A monthlySIP years stepUpRate =
     (if js_not stepUpRate \<or> js_eq stepUpRate (Fin 0)
      then Some (mul_fp A (mul_fp A monthlySIP years) (Fin 12))
      else let annualStepUp = div_fp A stepUpRate (Fin 100)
           in totalInvestment_years_fp A years annualStepUp (Fin 0, Fin 0, monthlySIP))"


section \<open>The summary over all goals\<close>

text \<open>A goal as the calculator reads it; \<^verbatim>\<open>stepUpRate\<close> may be absent (\<^verbatim>\<open>undefined\<close>).\<close>

record goal =
  currentPrice :: jsnum
  inflationRate :: jsnum
  years :: jsnum
  expectedReturn :: jsnum
  stepUpRate :: "jsnum option"









section \<open>Closed forms used in the statements\<close>

text \<open>
  The future value that the step-up schedule reaches, as a sum over the real numbers:
  \<open>c\<close> is the first monthly contribution, \<open>Y\<close> the horizon in years, \<open>x\<close> the monthly
  growth factor \<open>1 + annualRate / 1200\<close> and \<open>g\<close> the yearly step factor
  \<open>1 + stepUpRate / 100\<close>. The outer sum has one term per year the loop visits.
\<close>

definition stepUpFV_real :: "real \<Rightarrow> real \<Rightarrow> real \<Rightarrow> real \<Rightarrow> real" where
  "stepUpFV_real c Y x g =
     (\<Sum>y<nat \<lceil>Y\<rceil>. \<Sum>m<12. c * g ^ y * x powr ((Y - real y) * 12 - real m))"

text \<open>Comparison of two results of the calculator: both calls return and the returned
  numbers compare with \<^verbatim>\<open><\<close> (or \<^verbatim>\<open><=\<close>).\<close>

definition returns_less :: "jsnum option \<Rightarrow> jsnum option \<Rightarrow> bool" where
  "returns_less a b =
     (case a of None \<Rightarrow> False | Some u \<Rightarrow> (case b of None \<Rightarrow> False | Some v \<Rightarrow> js_lt u v))"

definition returns_le :: "jsnum option \<Rightarrow> jsnum option \<Rightarrow> bool" where
  "returns_le a b =
     (case a of None \<Rightarrow> False | Some u \<Rightarrow> (case b of None \<Rightarrow> False | Some v \<Rightarrow> js_ge v u))"

text \<open>The value, at the horizon \<open>Y\<close>, of one unit paid in each of the twelve months of
  loop year \<open>y\<close>.\<close>

definition year_block :: "real \<Rightarrow> real \<Rightarrow> nat \<Rightarrow> real" where
  "year_block Y x y = (\<Sum>m<12. x powr ((Y - real y) * 12 - real m))"

section \<open>Powers and loops on finite numbers\<close>

lemma js_pow_pos: "0 < x \<Longrightarrow> js_pow (Fin x) (Fin y) = Fin (x powr y)"
proof -
  assume x: "0 < x"
  have "x powi \<lfloor>y\<rfloor> = x powr y" if "y = of_int \<lfloor>y\<rfloor>"
    using powr_real_of_int'[of x "\<lfloor>y\<rfloor>"] x that by simp
  with x show ?thesis
    by (simp add: fin_pow_def is_integral_def)
qed

lemma months_fold:
  assumes "0 < 1 + mr"
  shows "fold (\<lambda>month fv.
             let totalMonths = js_sub (Fin rem) (Fin (real month))
             in js_add fv (js_mul (Fin c) (js_pow (js_add (Fin 1) (Fin mr)) totalMonths)))
          [0..<k] (Fin fv)
        = Fin (fv + (\<Sum>m<k. c * (1 + mr) powr (rem - real m)))"
  using assms by (induction k) (simp_all add: js_sub_def js_pow_pos del: js_pow.simps)

lemma stepUpFV_months_fin:
  "0 < 1 + mr \<Longrightarrow>
   stepUpFV_months (Fin c) (Fin mr) (Fin rem) (Fin fv)
     = Fin (fv + (\<Sum>m<12. c * (1 + mr) powr (rem - real m)))"
  unfolding stepUpFV_months_def by (rule months_fold)

text \<open>The year loop with a finite bound \<open>Y\<close> visits the years
  \<open>year, \<dots>, \<lceil>Y\<rceil> - 1\<close> and returns.\<close>

lemma stepUpFV_years_fin:
  assumes "0 < 1 + mr"
  shows "stepUpFV_years (Fin Y) (Fin mr) (Fin st) year (Fin fv) (Fin cur)
     = Some (Fin (fv + (\<Sum>y = year..<nat \<lceil>Y\<rceil>. \<Sum>m<12.
                   cur * (1 + st) ^ (y - year) * (1 + mr) powr ((Y - real y) * 12 - real m))))"
proof (induction "nat \<lceil>Y\<rceil> - year" arbitrary: year fv cur)
  case 0
  then have "\<not> real year < Y" by linarith
  with 0 show ?case
    by (subst stepUpFV_years.simps) simp
next
  case (Suc n)
  then have lt: "real year < Y" and yl: "year < nat \<lceil>Y\<rceil>" by linarith+
  have n: "n = nat \<lceil>Y\<rceil> - Suc year" using Suc.hyps(2) by simp
  have shift: "(\<Sum>y = Suc year..<nat \<lceil>Y\<rceil>. \<Sum>m<12.
        cur * (1 + st) * (1 + st) ^ (y - Suc year) * (1 + mr) powr ((Y - real y) * 12 - real m))
      = (\<Sum>y = Suc year..<nat \<lceil>Y\<rceil>. \<Sum>m<12.
        cur * (1 + st) ^ (y - year) * (1 + mr) powr ((Y - real y) * 12 - real m))"
  proof (rule sum.cong[OF refl])
    fix y assume "y \<in> {Suc year..<nat \<lceil>Y\<rceil>}"
    then have "y - year = Suc (y - Suc year)" by auto
    then show "(\<Sum>m<12. cur * (1 + st) * (1 + st) ^ (y - Suc year)
                   * (1 + mr) powr ((Y - real y) * 12 - real m))
             = (\<Sum>m<12. cur * (1 + st) ^ (y - year)
                   * (1 + mr) powr ((Y - real y) * 12 - real m))"
      by (simp add: mult.assoc)
  qed
  show ?case
    apply (subst stepUpFV_years.simps)
    apply (simp add: lt js_sub_def stepUpFV_months_fin[OF assms] Suc.hyps(1)[OF n] del: of_nat_Suc)
    apply (simp add: sum.atLeast_Suc_lessThan[OF yl] shift[simplified] add.assoc)
    done
qed

lemma calculateStepUpFutureValue_fin:
  assumes "0 < 1 + r / 1200"
  shows "calculateStepUpFutureValue (Fin c) (Fin Y) (Fin r) (Fin s)
         = Some (Fin (stepUpFV_real c Y (1 + r / 1200) (1 + s / 100)))"
proof -
  have "0 < 1 + r / 12 / 100" using assms by simp
  from stepUpFV_years_fin[OF this, of Y "s / 100" 0 0 c]
  show ?thesis
    by (simp add: calculateStepUpFutureValue_def stepUpFV_real_def atLeast0LessThan)
qed

lemma totalInvestment_years_fin:
  "totalInvestment_years (Fin Y) (Fin st) year (Fin tot) (Fin cur)
     = Some (Fin (tot + (\<Sum>y = year..<nat \<lceil>Y\<rceil>. cur * (1 + st) ^ (y - year) * 12)))"
proof (induction "nat \<lceil>Y\<rceil> - year" arbitrary: year tot cur)
  case 0
  then have "\<not> real year < Y" by linarith
  with 0 show ?case
    by (subst totalInvestment_years.simps) simp
next
  case (Suc n)
  then have lt: "real year < Y" and yl: "year < nat \<lceil>Y\<rceil>" by linarith+
  have n: "n = nat \<lceil>Y\<rceil> - Suc year" using Suc.hyps(2) by simp
  have shift: "(\<Sum>y = Suc year..<nat \<lceil>Y\<rceil>. cur * (1 + st) * (1 + st) ^ (y - Suc year) * 12)
      = (\<Sum>y = Suc year..<nat \<lceil>Y\<rceil>. cur * (1 + st) ^ (y - year) * 12)"
  proof (rule sum.cong[OF refl])
    fix y assume "y \<in> {Suc year..<nat \<lceil>Y\<rceil>}"
    then have "y - year = Suc (y - Suc year)" by auto
    then show "cur * (1 + st) * (1 + st) ^ (y - Suc year) * 12 = cur * (1 + st) ^ (y - year) * 12"
      by (simp add: mult.assoc)
  qed
  show ?case
    apply (subst totalInvestment_years.simps)
    apply (simp add: lt Suc.hyps(1)[OF n] del: of_nat_Suc)
    apply (simp add: sum.atLeast_Suc_lessThan[OF yl] shift[simplified] add.assoc)
    done
qed

lemma calculateTotalInvestment_stepup:
  assumes "s \<noteq> 0"
  shows "calculateTotalInvestment (Fin m) (Fin Y) (Fin s)
         = Some (Fin (\<Sum>y<nat \<lceil>Y\<rceil>. 12 * m * (1 + s / 100) ^ y))"
proof -
  have "(\<Sum>y = 0..<nat \<lceil>Y\<rceil>. m * (1 + s / 100) ^ (y - 0) * 12)
      = (\<Sum>y<nat \<lceil>Y\<rceil>. 12 * m * (1 + s / 100) ^ y)"
    by (simp add: atLeast0LessThan mult_ac)
  with assms show ?thesis
    by (simp add: calculateTotalInvestment_def js_not_def js_eq_def totalInvestment_years_fin)
qed

lemma calculateTotalInvestment_flat:
  "calculateTotalInvestment (Fin m) (Fin Y) (Fin 0) = Some (Fin (m * Y * 12))"
  by (simp add: calculateTotalInvestment_def js_not_def)

section \<open>Properties of the arithmetic\<close>

text \<open>The properties of the arithmetic, as rules.\<close>

lemma exact_arith_simps [simp]: "rnd exact_arith = Fin" "powf exact_arith = fin_pow"
  by (simp_all add: exact_arith_def)

lemma exact_intsD: "exact_ints A \<Longrightarrow> \<bar>k\<bar> \<le> 2 ^ 53 \<Longrightarrow> rnd A (of_int k) = Fin (of_int k)"
  unfolding exact_ints_def by blast

lemma exact_ints_nat:
  assumes "exact_ints A" and "n \<le> 2 ^ 53"
  shows "rnd A (real n) = Fin (real n)"
proof -
  have "int n \<le> int (2 ^ 53)" using assms(2) by (rule of_nat_mono)
  also have "int (2 ^ 53) = 2 ^ 53" by (simp only: of_nat_power of_nat_numeral)
  finally have "\<bar>int n\<bar> \<le> 2 ^ 53" by simp
  from exact_intsD[OF assms(1) this] show ?thesis by simp
qed







text \<open>A result of moderate size is within \<open>10^-9\<close> of the exact one.\<close>

lemma accurateD:
  assumes "accurate A" and "1 / 2 ^ 1000 \<le> \<bar>x\<bar>" and "\<bar>x\<bar> \<le> B" and "B \<le> 2 ^ 1000"
    and "B / 2 ^ 52 \<le> e"
  shows "\<exists>v. rnd A x = Fin v \<and> x - e \<le> v \<and> v \<le> x + e"
proof -
  have "\<bar>x\<bar> \<le> 2 ^ 1000" using assms(3,4) by linarith
  with assms(1,2) obtain v where v: "rnd A x = Fin v" "\<bar>v - x\<bar> \<le> \<bar>x\<bar> / 2 ^ 52"
    unfolding accurate_def by blast
  have "\<bar>x\<bar> / 2 ^ 52 \<le> B / 2 ^ 52" using assms(3) by (simp add: divide_right_mono)
  with v(2) assms(5) have "\<bar>v - x\<bar> \<le> e" by linarith
  then have "x - e \<le> v \<and> v \<le> x + e" by linarith
  with v(1) show ?thesis by blast
qed


lemma pow_accurateD:
  assumes "pow_accurate A" and "1 \<le> x" and "x \<le> 2" and "0 < y" and "y \<le> 1000"
    and "x powr y \<le> B" and "B / 2 ^ 50 \<le> e"
  shows "\<exists>v. powf A x y = Fin v \<and> x powr y - e \<le> v \<and> v \<le> x powr y + e"
proof -
  from assms(1-5) obtain v where v: "powf A x y = Fin v" "\<bar>v - x powr y\<bar> \<le> x powr y / 2 ^ 50"
    unfolding pow_accurate_def by blast
  have "x powr y / 2 ^ 50 \<le> B / 2 ^ 50" using assms(6) by (simp add: divide_right_mono)
  with v(2) assms(7) have "\<bar>v - x powr y\<bar> \<le> e" by linarith
  then have "x powr y - e \<le> v \<and> v \<le> x powr y + e" by linarith
  with v(1) show ?thesis by blast
qed





subsection \<open>Exact arithmetic has the properties\<close>

lemma fin_pow_pos: "0 < x \<Longrightarrow> fin_pow x y = Fin (x powr y)"
proof -
  assume x: "0 < x"
  have "x powi \<lfloor>y\<rfloor> = x powr y" if "y = of_int \<lfloor>y\<rfloor>"
    using powr_real_of_int'[of x "\<lfloor>y\<rfloor>"] x that by simp
  with x show ?thesis
    by (simp add: fin_pow_def is_integral_def)
qed


lemma exact_ints_exact_arith: "exact_ints exact_arith"
  by (simp add: exact_ints_def)



lemma accurate_exact_arith: "accurate exact_arith"
  by (simp add: accurate_def)

lemma pow_accurate_exact_arith: "pow_accurate exact_arith"
  by (simp add: pow_accurate_def fin_pow_pos)



subsection \<open>Comparisons\<close>







section \<open>The year loops in floating-point arithmetic\<close>

lemma ceil_bound:
  assumes "Y \<le> 2 ^ 53" shows "nat \<lceil>Y :: real\<rceil> \<le> 2 ^ 53"
proof -
  have "\<lceil>Y\<rceil> \<le> 2 ^ 53" using assms by (simp add: ceiling_le_iff)
  then show ?thesis by (simp add: nat_le_iff)
qed

lemma year_lt: "k < nat \<lceil>Y :: real\<rceil> \<Longrightarrow> real k < Y"
  by linarith

lemma year_ge: "\<not> real (nat \<lceil>Y :: real\<rceil>) < Y"
  by linarith

text \<open>
  While the counter counts exactly, that is up to \<open>2^53\<close>, the two loops
  \<^verbatim>\<open>for (let year = 0; year < years; year++)\<close> run \<open>\<lceil>years\<rceil>\<close> passes and return.
\<close>

lemma totalInvestment_years_fp_passes:
  assumes A: "exact_ints A" and Y: "Y \<le> 2 ^ 53"
    and st: "fst state = Fin (real k)" and k: "k \<le> nat \<lceil>Y\<rceil>"
  shows "totalInvestment_years_fp A (Fin Y) annualStepUp state
           = Some (fst (snd ((invest_pass A annualStepUp ^^ (nat \<lceil>Y\<rceil> - k)) state)))"
  using st k
proof (induction "nat \<lceil>Y\<rceil> - k" arbitrary: k state)
  case 0
  from 0(1) have e: "nat \<lceil>Y\<rceil> - k = 0" by (rule sym)
  with 0(3) have "k = nat \<lceil>Y\<rceil>" by arith
  then have "\<not> real k < Y" using year_ge[of Y] by simp
  with 0(2) show ?case
    by (subst totalInvestment_years_fp.simps) (simp add: e)
next
  case (Suc n)
  then have lt: "k < nat \<lceil>Y\<rceil>" by simp
  then have ylt: "real k < Y" by (rule year_lt)
  have "Suc k \<le> 2 ^ 53" using lt ceil_bound[OF Y] by linarith
  from exact_ints_nat[OF A this]
  have next_year: "fst (invest_pass A annualStepUp state) = Fin (real (Suc k))"
    using Suc.prems(1) by (cases state rule: prod_cases3) (simp add: invest_pass_def add.commute)
  have n: "n = nat \<lceil>Y\<rceil> - Suc k" using Suc.hyps(2) by simp
  have c: "nat \<lceil>Y\<rceil> - k = Suc (nat \<lceil>Y\<rceil> - Suc k)" using lt by simp
  show ?case
    apply (subst totalInvestment_years_fp.simps)
    apply (simp only: Suc.prems(1) js_lt.simps ylt if_True)
    apply (subst Suc.hyps(1)[OF n next_year])
    using lt apply simp
    apply (simp only: c funpow_Suc_right comp_apply)
    done
qed

lemma stepUpFV_years_fp_passes:
  assumes A: "exact_ints A" and Y: "Y \<le> 2 ^ 53"
    and st: "fst state = Fin (real k)" and k: "k \<le> nat \<lceil>Y\<rceil>"
  shows "stepUpFV_years_fp A (Fin Y) monthlyRate annualStepUp state
           = Some (fst (snd ((fv_pass A (Fin Y) monthlyRate annualStepUp ^^ (nat \<lceil>Y\<rceil> - k)) state)))"
  using st k
proof (induction "nat \<lceil>Y\<rceil> - k" arbitrary: k state)
  case 0
  from 0(1) have e: "nat \<lceil>Y\<rceil> - k = 0" by (rule sym)
  with 0(3) have "k = nat \<lceil>Y\<rceil>" by arith
  then have "\<not> real k < Y" using year_ge[of Y] by simp
  with 0(2) show ?case
    by (subst stepUpFV_years_fp.simps) (simp add: e)
next
  case (Suc n)
  then have lt: "k < nat \<lceil>Y\<rceil>" by simp
  then have ylt: "real k < Y" by (rule year_lt)
  have "Suc k \<le> 2 ^ 53" using lt ceil_bound[OF Y] by linarith
  from exact_ints_nat[OF A this]
  have next_year: "fst (fv_pass A (Fin Y) monthlyRate annualStepUp state) = Fin (real (Suc k))"
    using Suc.prems(1)
    by (cases state rule: prod_cases3) (simp add: fv_pass_def Let_def add.commute)
  have n: "n = nat \<lceil>Y\<rceil> - Suc k" using Suc.hyps(2) by simp
  have c: "nat \<lceil>Y\<rceil> - k = Suc (nat \<lceil>Y\<rceil> - Suc k)" using lt by simp
  show ?case
    apply (subst stepUpFV_years_fp.simps)
    apply (simp only: Suc.prems(1) js_lt.simps ylt if_True)
    apply (subst Suc.hyps(1)[OF n next_year])
    using lt apply simp
    apply (simp only: c funpow_Suc_right comp_apply)
    done
qed

lemma calculateTotalInvestment_fp_passes:
  assumes "exact_ints A" and "Y \<le> 2 ^ 53" and "s \<noteq> 0"
  shows "calculateTotalInvestment_fp A m (Fin Y) (Fin s)
         = Some (fst (snd ((invest_pass A (div_fp A (Fin s) (Fin 100)) ^^ nat \<lceil>Y\<rceil>)
                             (Fin 0, Fin 0, m))))"
  using totalInvestment_years_fp_passes[OF assms(1,2), of "(Fin 0, Fin 0, m)" 0] assms(3)
  by (simp add: calculateTotalInvestment_fp_def js_not_def js_eq_def del: div_fp.simps)

lemma calculateStepUpFutureValue_fp_passes:
  assumes "exact_ints A" and "Y \<le> 2 ^ 53"
  shows "calculateStepUpFutureValue_fp A c (Fin Y) r s
         = Some (fst (snd ((fv_pass A (Fin Y) (div_fp A (div_fp A r (Fin 12)) (Fin 100))
                                     (div_fp A s (Fin 100)) ^^ nat \<lceil>Y\<rceil>)
                             (Fin 0, Fin 0, c))))"
  using stepUpFV_years_fp_passes[OF assms(1,2), of "(Fin 0, Fin 0, c)" 0]
  by (simp add: calculateStepUpFutureValue_fp_def Let_def del: div_fp.simps)


text \<open>In exact arithmetic the passes of the investment loop add up to a geometric sum.\<close>

lemma invest_pass_exact:
  "(invest_pass exact_arith (Fin st) ^^ n) (Fin 0, Fin 0, Fin c)
     = (Fin (real n), Fin (\<Sum>y<n. 12 * c * (1 + st) ^ y), Fin (c * (1 + st) ^ n))"
  by (induction n) (simp_all add: invest_pass_def algebra_simps)

section \<open>The inflation projector\<close>

text \<open>
  The known value. In an arithmetic that is accurate, \<open>6 / 100\<close>, \<open>1 + 0.06\<close>, the tenth
  power and the product with 100000 each stay within \<open>10^-9\<close> of the exact result, so the
  product lies between 179084.7 and 179084.8 and is rounded to 179085.
\<close>

lemma inflation_known_value:
  assumes a: "accurate A" and p: "pow_accurate A"
  shows "calculateInflationAdjustedAmount_fp A (Fin 100000) (Fin 6) (Fin 10) = Fin 179085"
proof -
  have small: "(1::real) / 2 ^ 1000 \<le> 1 / 100"
    by (rule divide_left_mono) simp_all
  obtain d where d: "rnd A (6 / 100) = Fin d" "6 / 100 - 1 / 10 ^ 9 \<le> d" "d \<le> 6 / 100 + 1 / 10 ^ 9"
    using accurateD[OF a, of "6 / 100" 1 "1 / 10 ^ 9"] small by auto
  obtain s where s: "rnd A (1 + d) = Fin s" "1 + d - 1 / 10 ^ 9 \<le> s" "s \<le> 1 + d + 1 / 10 ^ 9"
    using accurateD[OF a, of "1 + d" 2 "1 / 10 ^ 9"] small d(2,3) by auto
  have sb: "53 / 50 - 3 / 10 ^ 9 \<le> s" "s \<le> 53 / 50 + 3 / 10 ^ 9"
    using s(2,3) d(2,3) by simp_all
  have s0: "0 < s" "1 \<le> s" "s \<le> 2" using sb by simp_all
  have pw: "s powr 10 = s ^ 10" using s0(1) powr_realpow[of s 10] by simp
  have lo: "(17908476 :: real) / 10 ^ 7 \<le> (53 / 50 - 3 / 10 ^ 9) ^ 10"
    by (simp add: power_divide)
  have hi: "((53 :: real) / 50 + 3 / 10 ^ 9) ^ 10 \<le> 17908478 / 10 ^ 7"
    by (simp add: power_divide)
  have "(53 / 50 - 3 / 10 ^ 9) ^ 10 \<le> s ^ 10" using sb(1) by (intro power_mono) simp_all
  with lo have plo: "17908476 / 10 ^ 7 \<le> s ^ 10" by linarith
  have "s ^ 10 \<le> (53 / 50 + 3 / 10 ^ 9) ^ 10" using sb(2) s0(1) by (intro power_mono) simp_all
  with hi have phi: "s ^ 10 \<le> 17908478 / 10 ^ 7" by linarith
  obtain q where q: "powf A s 10 = Fin q" "s ^ 10 - 1 / 10 ^ 9 \<le> q" "q \<le> s ^ 10 + 1 / 10 ^ 9"
    using pow_accurateD[OF p s0(2,3), of 10 2 "1 / 10 ^ 9"] phi pw by auto
  have qb: "17908475 / 10 ^ 7 \<le> q" "q \<le> 17908479 / 10 ^ 7"
    using q(2,3) plo phi by simp_all
  obtain v where v: "rnd A (100000 * q) = Fin v" "100000 * q - 1 / 10 ^ 9 \<le> v"
      "v \<le> 100000 * q + 1 / 10 ^ 9"
    using accurateD[OF a, of "100000 * q" 200000 "1 / 10 ^ 9"] small qb by auto
  have vb: "1790847 / 10 \<le> v" "v \<le> 1790848 / 10"
    using v(2,3) qb by simp_all
  then have fl: "\<lfloor>v + 1 / 2\<rfloor> = 179085" by (simp add: floor_eq_iff)
  have e: "div_fp A (Fin 6) (Fin 100) = Fin d" "add_fp A (Fin 1) (Fin d) = Fin s"
    "pow_fp A (Fin s) (Fin 10) = Fin q" "mul_fp A (Fin 100000) (Fin q) = Fin v"
    using d(1) s(1) q(1) v(1) by simp_all
  show ?thesis
    by (simp add: calculateInflationAdjustedAmount_fp_def js_eq_def e fl
             del: div_fp.simps add_fp.simps pow_fp.simps mul_fp.simps)
qed

text \<open>
  Claim C6. \<^verbatim>\<open>calculateInflationAdjustedAmount\<close> returns \<^verbatim>\<open>currentPrice\<close> unchanged when
  \<^verbatim>\<open>currentPrice\<close> is 0 or \<^verbatim>\<open>years\<close> is 0. For every other input it returns
  \<^verbatim>\<open>currentPrice * (1 + inflationRate/100)^years\<close> rounded to the nearest whole unit,
  where the division, the sum, the power and the product are those of the arithmetic
  (each of them rounds) and \<^verbatim>\<open>Math.round\<close> is exact. This holds in every arithmetic. At
  \<open>(100000, 6, 10)\<close> the result is 179085 in every arithmetic that is accurate and
  whose \<^verbatim>\<open>Math.pow\<close> is accurate.
\<close>

theorem inflation_projector_contract:
  "calculateInflationAdjustedAmount_fp A (Fin 0) r y = Fin 0
   \<and> calculateInflationAdjustedAmount_fp A p r (Fin 0) = p
   \<and> (p \<noteq> Fin 0 \<and> y \<noteq> Fin 0 \<longrightarrow>
        calculateInflationAdjustedAmount_fp A p r y
          = js_round (mul_fp A p (pow_fp A (add_fp A (Fin 1) (div_fp A r (Fin 100))) y)))
   \<and> (accurate A \<and> pow_accurate A \<longrightarrow>
        calculateInflationAdjustedAmount_fp A (Fin 100000) (Fin 6) (Fin 10) = Fin 179085)"
proof (intro conjI impI)
  show "calculateInflationAdjustedAmount_fp A (Fin 0) r y = Fin 0"
    and "calculateInflationAdjustedAmount_fp A p r (Fin 0) = p"
    by (simp_all add: calculateInflationAdjustedAmount_fp_def js_eq_def)
next
  assume "p \<noteq> Fin 0 \<and> y \<noteq> Fin 0"
  then show "calculateInflationAdjustedAmount_fp A p r y
          = js_round (mul_fp A p (pow_fp A (add_fp A (Fin 1) (div_fp A r (Fin 100))) y))"
    by (auto simp add: calculateInflationAdjustedAmount_fp_def js_eq_def
             simp del: div_fp.simps add_fp.simps pow_fp.simps mul_fp.simps)
next
  assume "accurate A \<and> pow_accurate A"
  then show "calculateInflationAdjustedAmount_fp A (Fin 100000) (Fin 6) (Fin 10) = Fin 179085"
    using inflation_known_value by blast
qed

theorem inflation_projector_contract_witness:
  "accurate exact_arith \<and> pow_accurate exact_arith
   \<and> calculateInflationAdjustedAmount_fp exact_arith (Fin 100000) (Fin 6) (Fin 10) = Fin 179085
   \<and> calculateInflationAdjustedAmount_fp exact_arith (Fin 2000) (Fin 50) (Fin 2)
       = js_round (mul_fp exact_arith (Fin 2000)
           (pow_fp exact_arith (add_fp exact_arith (Fin 1) (div_fp exact_arith (Fin 50) (Fin 100)))
              (Fin 2)))
   \<and> calculateInflationAdjustedAmount_fp exact_arith (Fin 2000) (Fin 50) (Fin 2) = Fin 4500"
proof -
  have g: "Fin 2000 \<noteq> Fin 0 \<and> Fin 2 \<noteq> Fin 0" by simp
  have fl: "\<lfloor>(2000::real) * (3 / 2) ^ 2 + 1 / 2\<rfloor> = 4500"
    by (simp add: floor_eq_iff power_divide)
  have v: "js_round (mul_fp exact_arith (Fin 2000)
           (pow_fp exact_arith (add_fp exact_arith (Fin 1) (div_fp exact_arith (Fin 50) (Fin 100)))
              (Fin 2))) = Fin 4500"
    using fl by (simp add: fin_pow_def is_integral_def)
  show ?thesis
    using inflation_projector_contract [of exact_arith "Fin 50" "Fin 2" "Fin 2000"]
          accurate_exact_arith pow_accurate_exact_arith g v
    by (simp del: div_fp.simps add_fp.simps pow_fp.simps mul_fp.simps)
qed

section \<open>The step-up solver on small targets\<close>

text \<open>
  Claim C9. For every \<^verbatim>\<open>targetAmount\<close> between 0 and 12 and all \<^verbatim>\<open>years\<close>, \<^verbatim>\<open>annualRate\<close>
  and \<^verbatim>\<open>stepUpRate\<close> (any JavaScript numbers), \<^verbatim>\<open>calculateStepUpSIP\<close> returns exactly 0:
  the first bracket \<^verbatim>\<open>targetAmount / 12\<close> is no wider than the tolerance, so the loop body
  never runs.
\<close>

theorem small_target_cutoff:
  assumes "0 \<le> t" and "t \<le> 12"
  shows "calculateStepUpSIP (Fin t) y r s = Some (Fin 0)"
  using assms
  by (simp add: calculateStepUpSIP_def stepUpSIP_search.simps js_gt_def js_sub_def tolerance_def)

theorem small_target_cutoff_witness:
  "calculateStepUpSIP (Fin 12) (Fin 10) (Fin 12) (Fin 10) = Some (Fin 0)"
  using small_target_cutoff [of 12 "Fin 10" "Fin 12" "Fin 10"] by simp

section \<open>The level solver\<close>

lemma powr_ne_one:
  assumes "0 < (x::real)" "x \<noteq> 1" "n \<noteq> 0" shows "x powr n \<noteq> 1"
proof
  assume "x powr n = 1"
  then have "exp (n * ln x) = exp 0" using assms(1) by (simp add: powr_def)
  then have "n * ln x = 0" by (simp only: exp_inj_iff)
  then have "ln x = 0" using assms(3) by simp
  then show False using assms(1,2) by simp
qed


text \<open>The closed form on finite numbers with a positive base: the divisor is not zero,
  and the result is the rounded real quotient.\<close>

lemma calculateMonthlySIP_fin:
  assumes "t \<noteq> 0" "Y \<noteq> 0" "R \<noteq> 0" "0 < 1 + R / 1200"
  shows "calculateMonthlySIP (Fin t) (Fin Y) (Fin R) (Fin 0)
        = Some (Fin (of_int \<lfloor>t / (((1 + R / 1200) powr (Y * 12) - 1) / (R / 1200) * (1 + R / 1200))
                              + 1 / 2\<rfloor>))"
    and "((1 + R / 1200) powr (Y * 12) - 1) / (R / 1200) * (1 + R / 1200) \<noteq> 0"
proof -
  have x: "0 < 1 + R / 1200" "1 + R / 1200 \<noteq> 1" "Y * 12 \<noteq> 0" using assms by simp_all
  have p: "(1 + R / 1200) powr (Y * 12) \<noteq> 1" by (rule powr_ne_one[OF x])
  show "((1 + R / 1200) powr (Y * 12) - 1) / (R / 1200) * (1 + R / 1200) \<noteq> 0"
    using assms p by simp
  have "0 < 1 + R / 12 / 100" using assms by simp
  then show "calculateMonthlySIP (Fin t) (Fin Y) (Fin R) (Fin 0)
        = Some (Fin (of_int \<lfloor>t / (((1 + R / 1200) powr (Y * 12) - 1) / (R / 1200) * (1 + R / 1200))
                              + 1 / 2\<rfloor>))"
    using assms p
    by (simp add: calculateMonthlySIP_def js_eq_def js_not_def Let_def js_sub_def js_pow_pos
             del: js_pow.simps)
qed





section \<open>Total investment and fractional horizons\<close>

lemma geo_ge: 
  assumes "1 \<le> (g::real)" shows "real n \<le> (\<Sum>y<n. g ^ y)"
proof -
  have "(\<Sum>y<n. (1::real)) \<le> (\<Sum>y<n. g ^ y)"
    by (rule sum_mono) (simp add: assms)
  then show ?thesis by simp
qed

lemma ceil_gt:
  assumes "0 < Y" "\<not> is_integral Y" shows "Y < real (nat \<lceil>Y\<rceil>)"
proof -
  have "Y \<noteq> of_int \<lceil>Y\<rceil>"
    using assms(2) unfolding is_integral_def by (metis floor_of_int)
  moreover have "Y \<le> of_int \<lceil>Y\<rceil>" by (rule le_of_int_ceiling)
  moreover have "real (nat \<lceil>Y\<rceil>) = of_int \<lceil>Y\<rceil>" using assms(1) by simp
  ultimately show ?thesis by (metis order_le_imp_less_or_eq)
qed

lemma branches_differ:
  assumes s: "0 < s" and m: "m \<noteq> 0" and Y: "\<not> is_integral Y"
  shows "(\<Sum>y<nat \<lceil>Y\<rceil>. 12 * m * (1 + s / 100) ^ y) \<noteq> m * Y * 12"
proof -
  let ?G = "\<Sum>y<nat \<lceil>Y\<rceil>. (1 + s / 100) ^ y"
  have eq: "(\<Sum>y<nat \<lceil>Y\<rceil>. 12 * m * (1 + s / 100) ^ y) = 12 * m * ?G"
    by (simp add: sum_distrib_left)
  have "?G \<noteq> Y"
  proof (cases "0 < Y")
    case True
    then have "Y < real (nat \<lceil>Y\<rceil>)" using Y by (rule ceil_gt)
    also have "\<dots> \<le> ?G" using s by (intro geo_ge) simp
    finally show ?thesis by simp
  next
    case False
    then have "nat \<lceil>Y\<rceil> = 0" by (simp add: ceiling_le_zero)
    moreover have "Y \<noteq> 0" using Y by (auto simp: is_integral_def)
    ultimately show ?thesis by simp
  qed
  with m show ?thesis unfolding eq by (simp add: mult.commute)
qed

text \<open>In exact arithmetic the two branches differ for every contribution other than 0 and
  every horizon that is not a whole number.\<close>

lemma calculateTotalInvestment_branches_exact:
  assumes "0 < s" and "m \<noteq> 0" and "\<not> is_integral Y"
  shows "calculateTotalInvestment (Fin m) (Fin Y) (Fin s)
           \<noteq> calculateTotalInvestment (Fin m) (Fin Y) (Fin 0)"
proof -
  have s0: "s \<noteq> 0" using assms(1) by simp
  show ?thesis
    using branches_differ[OF assms]
    by (simp add: calculateTotalInvestment_stepup[OF s0] calculateTotalInvestment_flat)
qed

lemma half_ceiling: "nat \<lceil>1 / 2 :: real\<rceil> = 1"
proof -
  have "\<lceil>1 / 2 :: real\<rceil> = 1" by (rule ceiling_unique) simp_all
  then show ?thesis by simp
qed

text \<open>
  Claim C10, as amended. For every step-up rate \<open>s > 0\<close> and every \<^verbatim>\<open>years\<close> up to \<open>2^53\<close>,
  in every arithmetic that is exact on integers, \<^verbatim>\<open>calculateTotalInvestment\<close> returns
  the total after \<open>\<lceil>years\<rceil>\<close> passes of its loop, each of which adds twelve times the
  current contribution and then applies the step (no pass when \<open>years \<le> 0\<close>); in exact
  arithmetic the passes add up to the sum over \<open>y < \<lceil>years\<rceil>\<close> of
  \<open>12 * monthlySIP * (1 + s/100)^y\<close>. The branch for \<open>s = 0\<close> returns
  \<^verbatim>\<open>monthlySIP * years * 12\<close> with the \<^verbatim>\<open>years\<close> as given. At \<open>years = 0.5\<close> the step-up
  branch gives \<^verbatim>\<open>0 + monthlySIP * 12\<close> and the flat branch \<^verbatim>\<open>monthlySIP * 0.5 * 12\<close>: for a
  contribution of 1000 these are 12000 and 6000. \<^verbatim>\<open>calculateStepUpFutureValue\<close> likewise
  returns the future value after \<open>\<lceil>years\<rceil>\<close> passes of twelve months each.
\<close>

theorem fractional_horizon_ceiling:
  assumes "exact_ints A" and "0 < s" and "Y \<le> 2 ^ 53"
  shows "calculateTotalInvestment_fp A m (Fin Y) (Fin s)
           = Some (fst (snd ((invest_pass A (div_fp A (Fin s) (Fin 100)) ^^ nat \<lceil>Y\<rceil>)
                               (Fin 0, Fin 0, m))))
       \<and> fst (snd ((invest_pass exact_arith (div_fp exact_arith (Fin s) (Fin 100)) ^^ nat \<lceil>Y\<rceil>)
                     (Fin 0, Fin 0, Fin c)))
           = Fin (\<Sum>y<nat \<lceil>Y\<rceil>. 12 * c * (1 + s / 100) ^ y)
       \<and> calculateTotalInvestment_fp A m y (Fin 0) = Some (mul_fp A (mul_fp A m y) (Fin 12))
       \<and> calculateTotalInvestment_fp A m (Fin (1 / 2)) (Fin s)
           = Some (add_fp A (Fin 0) (mul_fp A m (Fin 12)))
       \<and> calculateTotalInvestment_fp A (Fin 1000) (Fin (1 / 2)) (Fin s) = Some (Fin 12000)
       \<and> calculateTotalInvestment_fp A (Fin 1000) (Fin (1 / 2)) (Fin 0) = Some (Fin 6000)
       \<and> calculateStepUpFutureValue_fp A c' (Fin Y) r s'
           = Some (fst (snd ((fv_pass A (Fin Y) (div_fp A (div_fp A r (Fin 12)) (Fin 100))
                                       (div_fp A s' (Fin 100)) ^^ nat \<lceil>Y\<rceil>)
                               (Fin 0, Fin 0, c'))))"
proof -
  have s0: "s \<noteq> 0" using assms(2) by simp
  have h: "(1 / 2 :: real) \<le> 2 ^ 53" by simp
  have k: "rnd A 12000 = Fin 12000" "rnd A 500 = Fin 500" "rnd A 6000 = Fin 6000"
    using exact_intsD[OF assms(1), of 12000] exact_intsD[OF assms(1), of 500]
          exact_intsD[OF assms(1), of 6000]
    by simp_all
  have half: "calculateTotalInvestment_fp A m' (Fin (1 / 2)) (Fin s)
           = Some (add_fp A (Fin 0) (mul_fp A m' (Fin 12)))" for m'
    by (simp only: calculateTotalInvestment_fp_passes[OF assms(1) h s0] half_ceiling)
       (simp add: invest_pass_def del: add_fp.simps mul_fp.simps div_fp.simps)
  show ?thesis
  proof (intro conjI)
    show "calculateTotalInvestment_fp A m (Fin Y) (Fin s)
           = Some (fst (snd ((invest_pass A (div_fp A (Fin s) (Fin 100)) ^^ nat \<lceil>Y\<rceil>)
                               (Fin 0, Fin 0, m))))"
      by (rule calculateTotalInvestment_fp_passes[OF assms(1,3) s0])
    show "fst (snd ((invest_pass exact_arith (div_fp exact_arith (Fin s) (Fin 100)) ^^ nat \<lceil>Y\<rceil>)
                     (Fin 0, Fin 0, Fin c)))
           = Fin (\<Sum>y<nat \<lceil>Y\<rceil>. 12 * c * (1 + s / 100) ^ y)"
      by (simp add: invest_pass_exact)
    show "calculateTotalInvestment_fp A m y (Fin 0) = Some (mul_fp A (mul_fp A m y) (Fin 12))"
      by (simp add: calculateTotalInvestment_fp_def js_not_def)
    show "calculateTotalInvestment_fp A m (Fin (1 / 2)) (Fin s)
           = Some (add_fp A (Fin 0) (mul_fp A m (Fin 12)))"
      by (rule half)
    show "calculateTotalInvestment_fp A (Fin 1000) (Fin (1 / 2)) (Fin s) = Some (Fin 12000)"
      by (simp add: half k)
    show "calculateTotalInvestment_fp A (Fin 1000) (Fin (1 / 2)) (Fin 0) = Some (Fin 6000)"
      by (simp add: calculateTotalInvestment_fp_def js_not_def k)
    show "calculateStepUpFutureValue_fp A c' (Fin Y) r s'
           = Some (fst (snd ((fv_pass A (Fin Y) (div_fp A (div_fp A r (Fin 12)) (Fin 100))
                                       (div_fp A s' (Fin 100)) ^^ nat \<lceil>Y\<rceil>)
                               (Fin 0, Fin 0, c'))))"
      by (rule calculateStepUpFutureValue_fp_passes[OF assms(1,3)])
  qed
qed

theorem fractional_horizon_ceiling_witness:
  "exact_ints exact_arith
   \<and> calculateTotalInvestment_fp exact_arith (Fin 1000) (Fin (3 / 2)) (Fin 10) = Some (Fin 25200)
   \<and> calculateTotalInvestment_fp exact_arith (Fin 1000) (Fin (3 / 2)) (Fin 0) = Some (Fin 18000)
   \<and> calculateTotalInvestment_fp exact_arith (Fin 1000) (Fin (1 / 2)) (Fin 10) = Some (Fin 12000)
   \<and> calculateTotalInvestment_fp exact_arith (Fin 1000) (Fin (1 / 2)) (Fin 0) = Some (Fin 6000)"
proof -
  have c: "nat \<lceil>3 / 2 :: real\<rceil> = 2" by (simp add: ceiling_eq_iff)
  have h: "(0::real) < 10" "(3 / 2 :: real) \<le> 2 ^ 53" by simp_all
  show ?thesis
    using fractional_horizon_ceiling [OF exact_ints_exact_arith h, of "Fin 1000" 1000 "Fin (3 / 2)"]
          exact_ints_exact_arith
    by (simp add: c lessThan_Suc numeral_2_eq_2)
qed

text \<open>
  Claim C10 as stated fails: it says that the two branches disagree whenever \<^verbatim>\<open>years\<close>
  is not a whole number, for every \<^verbatim>\<open>monthlySIP\<close>. At \<open>years = 0.5\<close> they agree for a
  contribution of 0, where both return 0, and for a contribution of \<^verbatim>\<open>Infinity\<close>, where
  both return \<^verbatim>\<open>Infinity\<close>.
\<close>

theorem fractional_horizon_ceiling_counterexample:
  "calculateTotalInvestment (Fin 0) (Fin (1 / 2)) (Fin 10) = Some (Fin 0)
   \<and> calculateTotalInvestment (Fin 0) (Fin (1 / 2)) (Fin 0) = Some (Fin 0)
   \<and> calculateTotalInvestment PInf (Fin (1 / 2)) (Fin 10) = Some PInf
   \<and> calculateTotalInvestment PInf (Fin (1 / 2)) (Fin 0) = Some PInf"
  by (simp add: calculateTotalInvestment_def js_not_def js_eq_def totalInvestment_years.simps
        signed_inf_def)

section \<open>The floors of the summary\<close>










section \<open>Monotonicity of the future value\<close>

lemma stepUpFV_real_blocks:
  "stepUpFV_real c Y x g = (\<Sum>y<nat \<lceil>Y\<rceil>. c * g ^ y * year_block Y x y)"
  by (simp add: stepUpFV_real_def year_block_def sum_distrib_left)

lemma stepUpFV_real_linear: "stepUpFV_real c Y x g = c * stepUpFV_real 1 Y x g"
  by (simp add: stepUpFV_real_def sum_distrib_left mult.assoc)

lemma year_block_pos: "0 < x \<Longrightarrow> 0 < year_block Y x y"
  unfolding year_block_def by (rule sum_pos) (simp_all add: lessThan_empty_iff)

lemma year_block_less_years:
  assumes "1 < x" "Y1 < Y2" shows "year_block Y1 x y < year_block Y2 x y"
  unfolding year_block_def
  by (rule sum_strict_mono) (simp_all add: assms powr_less_mono lessThan_empty_iff)

lemma year_block_less_rate:
  assumes "0 \<le> x1" "x1 < x2" "real y + 1 \<le> Y"
  shows "year_block Y x1 y < year_block Y x2 y"
  unfolding year_block_def
proof (rule sum_strict_mono)
  fix m :: nat assume "m \<in> {..<12}"
  then have "real m \<le> 11" by simp
  moreover have "12 \<le> (Y - real y) * 12" using assms(3) by simp
  ultimately have "0 < (Y - real y) * 12 - real m" by linarith
  then show "x1 powr ((Y - real y) * 12 - real m) < x2 powr ((Y - real y) * 12 - real m)"
    using assms(1,2) by (rule powr_less_mono2)
qed (simp_all add: lessThan_empty_iff)

lemma first_year: "0 < Y \<Longrightarrow> 0 \<in> {..<nat \<lceil>Y\<rceil>}"
  by simp

lemma stepUpFV_real_unit_pos:
  assumes "0 < Y" "0 < x" "0 \<le> g" shows "0 < stepUpFV_real 1 Y x g"
  unfolding stepUpFV_real_blocks
proof (rule sum_pos2[OF _ first_year[OF assms(1)]])
  show "0 < 1 * g ^ 0 * year_block Y x 0" using year_block_pos[OF assms(2)] by simp
  show "0 \<le> 1 * g ^ i * year_block Y x i" for i
    using year_block_pos[OF assms(2), of Y i] assms(3) by simp
qed simp

lemma stepUpFV_real_less_contribution:
  assumes "0 < Y" "0 < x" "0 \<le> g" "c1 < c2"
  shows "stepUpFV_real c1 Y x g < stepUpFV_real c2 Y x g"
  using stepUpFV_real_unit_pos[OF assms(1-3)] assms(4)
  by (subst (1 2) stepUpFV_real_linear) simp

lemma stepUpFV_real_le_step:
  assumes "0 \<le> c" "0 < x" "0 \<le> g1" "g1 \<le> g2"
  shows "stepUpFV_real c Y x g1 \<le> stepUpFV_real c Y x g2"
  unfolding stepUpFV_real_blocks
proof (rule sum_mono)
  fix y
  have "g1 ^ y \<le> g2 ^ y" using assms(3,4) by (simp add: power_mono)
  then show "c * g1 ^ y * year_block Y x y \<le> c * g2 ^ y * year_block Y x y"
    using assms(1) year_block_pos[OF assms(2), of Y y]
    by (simp add: mult_left_mono mult_right_mono)
qed

lemma stepUpFV_real_less_step:
  assumes "0 < c" "0 < x" "0 \<le> g1" "g1 < g2" "1 < Y"
  shows "stepUpFV_real c Y x g1 < stepUpFV_real c Y x g2"
  unfolding stepUpFV_real_blocks
proof (rule sum_strict_mono_ex1)
  show "\<forall>y\<in>{..<nat \<lceil>Y\<rceil>}. c * g1 ^ y * year_block Y x y \<le> c * g2 ^ y * year_block Y x y"
  proof
    fix y
    have "g1 ^ y \<le> g2 ^ y" using assms(3,4) by (simp add: power_mono)
    then show "c * g1 ^ y * year_block Y x y \<le> c * g2 ^ y * year_block Y x y"
      using assms(1) year_block_pos[OF assms(2), of Y y]
      by (simp add: mult_left_mono mult_right_mono)
  qed
  have "1 < \<lceil>Y\<rceil>" using assms(5) by (simp add: less_ceiling_iff)
  then have "1 \<in> {..<nat \<lceil>Y\<rceil>}" by simp
  moreover have "c * g1 ^ 1 * year_block Y x 1 < c * g2 ^ 1 * year_block Y x 1"
    using assms(1,4) year_block_pos[OF assms(2), of Y 1] by simp
  ultimately show "\<exists>y\<in>{..<nat \<lceil>Y\<rceil>}. c * g1 ^ y * year_block Y x y < c * g2 ^ y * year_block Y x y"
    by blast
qed simp

lemma stepUpFV_real_less_years:
  assumes "0 < c" "1 < x" "0 \<le> g" "0 < Y1" "Y1 < Y2"
  shows "stepUpFV_real c Y1 x g < stepUpFV_real c Y2 x g"
proof -
  have x0: "0 < x" using assms(2) by simp
  have "(\<Sum>y<nat \<lceil>Y1\<rceil>. c * g ^ y * year_block Y1 x y)
          < (\<Sum>y<nat \<lceil>Y1\<rceil>. c * g ^ y * year_block Y2 x y)"
  proof (rule sum_strict_mono_ex1)
    show "\<forall>y\<in>{..<nat \<lceil>Y1\<rceil>}. c * g ^ y * year_block Y1 x y \<le> c * g ^ y * year_block Y2 x y"
    proof
      fix y
      have "0 \<le> c * g ^ y" using assms(1,3) by simp
      then show "c * g ^ y * year_block Y1 x y \<le> c * g ^ y * year_block Y2 x y"
        using year_block_less_years[OF assms(2,5), of y] by (simp add: mult_left_mono)
    qed
    have "c * g ^ 0 * year_block Y1 x 0 < c * g ^ 0 * year_block Y2 x 0"
      using assms(1) year_block_less_years[OF assms(2,5), of 0] by simp
    then show "\<exists>y\<in>{..<nat \<lceil>Y1\<rceil>}. c * g ^ y * year_block Y1 x y < c * g ^ y * year_block Y2 x y"
      using first_year[OF assms(4)] by blast
  qed simp
  also have "\<dots> \<le> (\<Sum>y<nat \<lceil>Y2\<rceil>. c * g ^ y * year_block Y2 x y)"
  proof (rule sum_mono2)
    have "\<lceil>Y1\<rceil> \<le> \<lceil>Y2\<rceil>" using assms(5) by (intro ceiling_mono) simp
    then have "nat \<lceil>Y1\<rceil> \<le> nat \<lceil>Y2\<rceil>" by (rule nat_mono)
    then show "{..<nat \<lceil>Y1\<rceil>} \<subseteq> {..<nat \<lceil>Y2\<rceil>}" by (simp only: lessThan_subset_iff)
    show "0 \<le> c * g ^ b * year_block Y2 x b" for b
      using assms(1,3) year_block_pos[OF x0, of Y2 b] by simp
  qed simp
  finally show ?thesis unfolding stepUpFV_real_blocks .
qed

lemma whole_years:
  assumes "is_integral Y" "y < nat \<lceil>Y\<rceil>" shows "real y + 1 \<le> Y"
proof -
  have Y: "Y = of_int \<lfloor>Y\<rfloor>" using assms(1) by (simp add: is_integral_def)
  have "\<lceil>Y\<rceil> = \<lfloor>Y\<rfloor>" by (subst Y) simp
  with assms(2) have "int y < \<lfloor>Y\<rfloor>" by simp
  then have "int y + 1 \<le> \<lfloor>Y\<rfloor>" by simp
  then have "real_of_int (int y + 1) \<le> of_int \<lfloor>Y\<rfloor>" by (simp only: of_int_le_iff)
  then show ?thesis using Y by simp
qed

lemma stepUpFV_real_less_rate:
  assumes "0 < c" "0 \<le> x1" "x1 < x2" "0 \<le> g" "0 < Y" "is_integral Y"
  shows "stepUpFV_real c Y x1 g < stepUpFV_real c Y x2 g"
  unfolding stepUpFV_real_blocks
proof (rule sum_strict_mono_ex1)
  show "\<forall>y\<in>{..<nat \<lceil>Y\<rceil>}. c * g ^ y * year_block Y x1 y \<le> c * g ^ y * year_block Y x2 y"
  proof
    fix y assume "y \<in> {..<nat \<lceil>Y\<rceil>}"
    then have "real y + 1 \<le> Y" using whole_years[OF assms(6)] by simp
    from year_block_less_rate[OF assms(2,3) this]
    show "c * g ^ y * year_block Y x1 y \<le> c * g ^ y * year_block Y x2 y"
      using assms(1,4) by (simp add: mult_left_mono)
  qed
  have "real 0 + 1 \<le> Y" using whole_years[OF assms(6), of 0] assms(5) by simp
  from year_block_less_rate[OF assms(2,3) this]
  have "c * g ^ 0 * year_block Y x1 0 < c * g ^ 0 * year_block Y x2 0"
    using assms(1) by simp
  then show "\<exists>y\<in>{..<nat \<lceil>Y\<rceil>}. c * g ^ y * year_block Y x1 y < c * g ^ y * year_block Y x2 y"
    using first_year[OF assms(5)] by blast
qed simp

lemma stepUpFV_real_first_year:
  assumes "Y \<le> 1" shows "stepUpFV_real c Y x g = stepUpFV_real c Y x g'"
proof -
  have "\<lceil>Y\<rceil> \<le> 1" using assms by (simp add: ceiling_le_iff)
  then have "nat \<lceil>Y\<rceil> = 0 \<or> nat \<lceil>Y\<rceil> = 1" by linarith
  then show ?thesis by (auto simp add: stepUpFV_real_def)
qed

lemma returns_less_fv:
  assumes "0 < 1 + r / 1200" "0 < 1 + r' / 1200"
  shows "returns_less (calculateStepUpFutureValue (Fin c) (Fin Y) (Fin r) (Fin s))
                      (calculateStepUpFutureValue (Fin c') (Fin Y') (Fin r') (Fin s'))
         = (stepUpFV_real c Y (1 + r / 1200) (1 + s / 100)
              < stepUpFV_real c' Y' (1 + r' / 1200) (1 + s' / 100))"
  by (simp add: returns_less_def calculateStepUpFutureValue_fin[OF assms(1)]
                calculateStepUpFutureValue_fin[OF assms(2)])

lemma returns_le_fv:
  assumes "0 < 1 + r / 1200" "0 < 1 + r' / 1200"
  shows "returns_le (calculateStepUpFutureValue (Fin c) (Fin Y) (Fin r) (Fin s))
                    (calculateStepUpFutureValue (Fin c') (Fin Y') (Fin r') (Fin s'))
         = (stepUpFV_real c Y (1 + r / 1200) (1 + s / 100)
              \<le> stepUpFV_real c' Y' (1 + r' / 1200) (1 + s' / 100))"
  by (simp add: returns_le_def js_ge_def not_less calculateStepUpFutureValue_fin[OF assms(1)]
                calculateStepUpFutureValue_fin[OF assms(2)])

text \<open>
  In exact arithmetic, for finite arguments with \<open>years > 0\<close>, \<open>annualRate > 0\<close> and
  \<open>stepUpRate \<ge> 0\<close>, the future value is 0 at \<open>initialMonthly = 0\<close> and strictly
  increasing in \<open>initialMonthly\<close>. For a positive \<open>initialMonthly\<close> it never decreases
  when \<open>stepUpRate\<close> grows, and strictly increases when \<open>years > 1\<close>; for \<open>years \<le> 1\<close> it
  does not depend on \<open>stepUpRate\<close>. It strictly increases in \<open>years\<close>, and strictly
  increases in \<open>annualRate\<close> when \<open>years\<close> is a whole number. In an arithmetic that
  rounds, two inputs that are close can give the same value, so that the order is kept
  but not its strictness: that is the subject of the next subsections.
\<close>

lemma stepUpFV_strict_exact:
  assumes "0 < Y" and "0 < r" and "0 \<le> s"
  shows "calculateStepUpFutureValue (Fin 0) (Fin Y) (Fin r) (Fin s) = Some (Fin 0)
    \<and> (c1 < c2 \<longrightarrow>
         returns_less (calculateStepUpFutureValue (Fin c1) (Fin Y) (Fin r) (Fin s))
                      (calculateStepUpFutureValue (Fin c2) (Fin Y) (Fin r) (Fin s)))
    \<and> (0 < c \<and> s \<le> s' \<longrightarrow>
         returns_le (calculateStepUpFutureValue (Fin c) (Fin Y) (Fin r) (Fin s))
                    (calculateStepUpFutureValue (Fin c) (Fin Y) (Fin r) (Fin s')))
    \<and> (0 < c \<and> s < s' \<and> 1 < Y \<longrightarrow>
         returns_less (calculateStepUpFutureValue (Fin c) (Fin Y) (Fin r) (Fin s))
                      (calculateStepUpFutureValue (Fin c) (Fin Y) (Fin r) (Fin s')))
    \<and> (Y \<le> 1 \<longrightarrow>
         calculateStepUpFutureValue (Fin c) (Fin Y) (Fin r) (Fin s')
           = calculateStepUpFutureValue (Fin c) (Fin Y) (Fin r) (Fin s))
    \<and> (0 < c \<and> Y < Y' \<longrightarrow>
         returns_less (calculateStepUpFutureValue (Fin c) (Fin Y) (Fin r) (Fin s))
                      (calculateStepUpFutureValue (Fin c) (Fin Y') (Fin r) (Fin s)))
    \<and> (0 < c \<and> r < r' \<and> is_integral Y \<longrightarrow>
         returns_less (calculateStepUpFutureValue (Fin c) (Fin Y) (Fin r) (Fin s))
                      (calculateStepUpFutureValue (Fin c) (Fin Y) (Fin r') (Fin s)))"
proof -
  have x: "0 < 1 + r / 1200" "1 < 1 + r / 1200" "0 \<le> 1 + r / 1200" using assms(2) by simp_all
  have g: "0 \<le> 1 + s / 100" using assms(3) by simp
  show ?thesis
  proof (intro conjI impI)
    show "calculateStepUpFutureValue (Fin 0) (Fin Y) (Fin r) (Fin s) = Some (Fin 0)"
      by (simp add: calculateStepUpFutureValue_fin[OF x(1)] stepUpFV_real_def)
  next
    assume "c1 < c2"
    then show "returns_less (calculateStepUpFutureValue (Fin c1) (Fin Y) (Fin r) (Fin s))
                      (calculateStepUpFutureValue (Fin c2) (Fin Y) (Fin r) (Fin s))"
      unfolding returns_less_fv[OF x(1) x(1)]
      by (rule stepUpFV_real_less_contribution[OF assms(1) x(1) g])
  next
    assume a: "0 < c \<and> s \<le> s'"
    then have "0 \<le> c" "1 + s / 100 \<le> 1 + s' / 100" by simp_all
    then show "returns_le (calculateStepUpFutureValue (Fin c) (Fin Y) (Fin r) (Fin s))
                    (calculateStepUpFutureValue (Fin c) (Fin Y) (Fin r) (Fin s'))"
      unfolding returns_le_fv[OF x(1) x(1)]
      using stepUpFV_real_le_step[OF _ x(1) g] by blast
  next
    assume a: "0 < c \<and> s < s' \<and> 1 < Y"
    then have "0 < c" "1 + s / 100 < 1 + s' / 100" "1 < Y" by simp_all
    then show "returns_less (calculateStepUpFutureValue (Fin c) (Fin Y) (Fin r) (Fin s))
                      (calculateStepUpFutureValue (Fin c) (Fin Y) (Fin r) (Fin s'))"
      unfolding returns_less_fv[OF x(1) x(1)]
      using stepUpFV_real_less_step[OF _ x(1) g] by blast
  next
    assume "Y \<le> 1"
    then show "calculateStepUpFutureValue (Fin c) (Fin Y) (Fin r) (Fin s')
           = calculateStepUpFutureValue (Fin c) (Fin Y) (Fin r) (Fin s)"
      unfolding calculateStepUpFutureValue_fin[OF x(1)]
      using stepUpFV_real_first_year[of Y c "1 + r / 1200" "1 + s' / 100" "1 + s / 100"] by simp
  next
    assume a: "0 < c \<and> Y < Y'"
    then show "returns_less (calculateStepUpFutureValue (Fin c) (Fin Y) (Fin r) (Fin s))
                      (calculateStepUpFutureValue (Fin c) (Fin Y') (Fin r) (Fin s))"
      unfolding returns_less_fv[OF x(1) x(1)]
      using stepUpFV_real_less_years[OF _ x(2) g assms(1)] by blast
  next
    assume a: "0 < c \<and> r < r' \<and> is_integral Y"
    then have r': "0 < 1 + r' / 1200" "1 + r / 1200 < 1 + r' / 1200" using assms(2) by simp_all
    show "returns_less (calculateStepUpFutureValue (Fin c) (Fin Y) (Fin r) (Fin s))
                      (calculateStepUpFutureValue (Fin c) (Fin Y) (Fin r') (Fin s))"
      unfolding returns_less_fv[OF x(1) r'(1)]
      using stepUpFV_real_less_rate[OF _ x(3) r'(2) g assms(1)] a by blast
  qed
qed


subsection \<open>The quantities of one pass\<close>







subsection \<open>Two runs side by side\<close>






subsection \<open>No contribution\<close>






subsection \<open>A higher return, on whole years\<close>




subsection \<open>A longer horizon\<close>










text \<open>A horizon of a quarter of a year: one loop year, with the exponents
  \<open>3, 2, \<dots>, -8\<close>.\<close>

lemma ceil_quarter: "nat \<lceil>1 / 4 :: real\<rceil> = 1"
proof -
  have "\<lceil>1 / 4 :: real\<rceil> = 1" by (rule ceiling_unique) simp_all
  then show ?thesis by simp
qed

lemma sum12:
  "(\<Sum>m<(12::nat). f m)
     = f 0 + f 1 + f 2 + f 3 + f 4 + f 5 + f 6 + f 7 + f 8 + f 9 + f 10 + (f 11 :: real)"
  by (simp add: eval_nat_numeral lessThan_Suc add_ac)




section \<open>The search loop on finite brackets\<close>

text \<open>One pass of the \<^verbatim>\<open>while\<close> loop, for a finite bracket and a positive monthly growth
  factor: the loop leaves when the bracket is no wider than the tolerance, and otherwise
  moves \<^verbatim>\<open>low\<close> or \<^verbatim>\<open>high\<close> to the midpoint.\<close>

lemma search_exit:
  assumes "hi - lo \<le> 1"
  shows "stepUpSIP_search T Y r s (Fin lo) (Fin hi) init = Some init"
  using assms
  by (subst stepUpSIP_search.simps) (simp add: js_gt_def js_sub_def tolerance_def)

lemma search_low:
  assumes "0 < 1 + r / 1200" "1 < hi - lo"
    and "stepUpFV_real ((lo + hi) / 2) Y (1 + r / 1200) (1 + s / 100) < T"
  shows "stepUpSIP_search (Fin T) (Fin Y) (Fin r) (Fin s) (Fin lo) (Fin hi) init
       = stepUpSIP_search (Fin T) (Fin Y) (Fin r) (Fin s)
           (Fin ((lo + hi) / 2)) (Fin hi) (Fin ((lo + hi) / 2))"
  using assms(2,3)
  by (subst stepUpSIP_search.simps)
     (simp add: js_gt_def js_sub_def tolerance_def Let_def calculateStepUpFutureValue_fin[OF assms(1)])

lemma search_high:
  assumes "0 < 1 + r / 1200" "1 < hi - lo"
    and "\<not> stepUpFV_real ((lo + hi) / 2) Y (1 + r / 1200) (1 + s / 100) < T"
  shows "stepUpSIP_search (Fin T) (Fin Y) (Fin r) (Fin s) (Fin lo) (Fin hi) init
       = stepUpSIP_search (Fin T) (Fin Y) (Fin r) (Fin s)
           (Fin lo) (Fin ((lo + hi) / 2)) (Fin ((lo + hi) / 2))"
  using assms(2,3)
  by (subst stepUpSIP_search.simps)
     (simp add: js_gt_def js_sub_def tolerance_def Let_def calculateStepUpFutureValue_fin[OF assms(1)])

subsection \<open>Termination\<close>

text \<open>With a bound \<^verbatim>\<open>years\<close> other than \<^verbatim>\<open>Infinity\<close> the oracle returns, and with a
  target other than \<^verbatim>\<open>Infinity\<close> the bracket is finite (or the guard is false at once)
  and its width is halved by every pass, so the solver returns. This is a statement
  about exact arithmetic.\<close>

lemma stepUpFV_years_returns:
  "\<exists>v. stepUpFV_years (Fin Y) mr st year fv cur = Some v"
proof (induction "nat \<lceil>Y\<rceil> - year" arbitrary: year fv cur)
  case 0
  then have "\<not> real year < Y" by linarith
  then show ?case by (subst stepUpFV_years.simps) simp
next
  case (Suc n)
  then have lt: "real year < Y" by linarith
  have n: "n = nat \<lceil>Y\<rceil> - Suc year" using Suc.hyps(2) by simp
  show ?case
    by (subst stepUpFV_years.simps) (simp add: lt Let_def Suc.hyps(1)[OF n] del: of_nat_Suc)
qed

lemma calculateStepUpFutureValue_returns:
  assumes "Y \<noteq> PInf" shows "\<exists>v. calculateStepUpFutureValue c Y r s = Some v"
proof (cases Y)
  case (Fin y)
  then show ?thesis by (simp add: calculateStepUpFutureValue_def stepUpFV_years_returns)
next
  case PInf
  with assms show ?thesis by simp
next
  case NInf
  then show ?thesis
    by (simp add: calculateStepUpFutureValue_def stepUpFV_years.simps)
next
  case NaN
  then show ?thesis
    by (simp add: calculateStepUpFutureValue_def stepUpFV_years.simps)
qed

lemma search_returns:
  assumes "Y \<noteq> PInf" "hi - lo \<le> 2 ^ n"
  shows "\<exists>v. stepUpSIP_search T Y r s (Fin lo) (Fin hi) init = Some v"
  using assms(2)
proof (induction n arbitrary: lo hi init)
  case 0
  then have "hi - lo \<le> 1" by simp
  then show ?case by (simp add: search_exit)
next
  case (Suc n)
  show ?case
  proof (cases "hi - lo \<le> 1")
    case True
    then show ?thesis by (simp add: search_exit)
  next
    case False
    let ?mid = "(lo + hi) / 2"
    obtain fv where fv: "calculateStepUpFutureValue (Fin ?mid) Y r s = Some fv"
      using calculateStepUpFutureValue_returns[OF assms(1)] by blast
    have half: "hi - ?mid \<le> 2 ^ n" "?mid - lo \<le> 2 ^ n"
      using Suc.prems by (simp_all add: field_simps)
    show ?thesis
      using False Suc.IH[OF half(1), of "Fin ?mid"] Suc.IH[OF half(2), of "Fin ?mid"]
      by (subst stepUpSIP_search.simps)
         (simp add: js_gt_def js_sub_def tolerance_def Let_def fv)
  qed
qed

lemma width_bound: "\<exists>n. (w::real) \<le> 2 ^ n"
proof -
  obtain n where "w < 2 ^ n" using real_arch_pow[of 2 w] by auto
  then show ?thesis by (intro exI[of _ n]) simp
qed

lemma calculateStepUpSIP_returns:
  assumes "T \<noteq> PInf" "Y \<noteq> PInf"
  shows "\<exists>v. calculateStepUpSIP T Y r s = Some v"
proof (cases T)
  case (Fin t)
  obtain n where "t / 12 - 0 \<le> 2 ^ n" using width_bound by blast
  from search_returns[OF assms(2) this, of "Fin t" r s "Fin 0"] Fin
  show ?thesis by (auto simp add: calculateStepUpSIP_def)
next
  case PInf
  with assms show ?thesis by simp
next
  case NInf
  then show ?thesis
    by (simp add: calculateStepUpSIP_def stepUpSIP_search.simps js_gt_def js_sub_def tolerance_def)
next
  case NaN
  then show ?thesis
    by (simp add: calculateStepUpSIP_def stepUpSIP_search.simps js_gt_def js_sub_def tolerance_def)
qed

subsection \<open>Horizons of at least one year\<close>

text \<open>From one year on, each of the first twelve contributions is compounded over a
  nonnegative number of months, so one unit a month is worth at least 12 at the horizon:
  \<^verbatim>\<open>targetAmount / 12\<close> reaches the target, the bracket encloses the root throughout, and
  the returned contribution is within one and a half units of the root.\<close>

lemma year_block_first_ge_12:
  assumes "1 \<le> x" "1 \<le> Y" shows "12 \<le> year_block Y x 0"
proof -
  have "(\<Sum>m<(12::nat). (1::real)) \<le> (\<Sum>m<12. x powr ((Y - real 0) * 12 - real m))"
  proof (rule sum_mono)
    fix m :: nat assume "m \<in> {..<12}"
    then have "real m \<le> 11" by simp
    then have "0 \<le> (Y - real 0) * 12 - real m" using assms(2) by simp
    then show "1 \<le> x powr ((Y - real 0) * 12 - real m)"
      using assms(1) by (simp add: ge_one_powr_ge_zero)
  qed
  then show ?thesis by (simp add: year_block_def)
qed

lemma stepUpFV_real_unit_ge_12:
  assumes "1 \<le> x" "1 \<le> Y" "0 \<le> g" shows "12 \<le> stepUpFV_real 1 Y x g"
proof -
  have x0: "0 < x" using assms(1) by simp
  have Y0: "0 < Y" using assms(2) by simp
  have "year_block Y x 0 = (\<Sum>y\<in>{0}. 1 * g ^ y * year_block Y x y)" by simp
  also have "\<dots> \<le> (\<Sum>y<nat \<lceil>Y\<rceil>. 1 * g ^ y * year_block Y x y)"
  proof (rule sum_mono2)
    show "{0} \<subseteq> {..<nat \<lceil>Y\<rceil>}" using first_year[OF Y0] by simp
    show "0 \<le> 1 * g ^ b * year_block Y x b" for b
      using assms(3) year_block_pos[OF x0, of Y b] by simp
  qed simp
  finally show ?thesis
    using year_block_first_ge_12[OF assms(1,2)] by (simp add: stepUpFV_real_blocks)
qed

lemma search_bracketed:
  assumes x: "0 < 1 + r / 1200"
    and K: "0 < stepUpFV_real 1 Y (1 + r / 1200) (1 + s / 100)"
    and inv: "lo * stepUpFV_real 1 Y (1 + r / 1200) (1 + s / 100) \<le> T"
             "T \<le> hi * stepUpFV_real 1 Y (1 + r / 1200) (1 + s / 100)"
    and init: "init = lo \<or> init = hi"
    and width: "hi - lo \<le> 2 ^ n"
  shows "\<exists>z. stepUpSIP_search (Fin T) (Fin Y) (Fin r) (Fin s) (Fin lo) (Fin hi) (Fin init)
               = Some (Fin z)
            \<and> \<bar>z * stepUpFV_real 1 Y (1 + r / 1200) (1 + s / 100) - T\<bar>
                \<le> stepUpFV_real 1 Y (1 + r / 1200) (1 + s / 100)"
  using inv init width
proof (induction n arbitrary: lo hi init)
  case 0
  let ?K = "stepUpFV_real 1 Y (1 + r / 1200) (1 + s / 100)"
  from 0 have w: "hi - lo \<le> 1" by simp
  have "(hi - lo) * ?K \<le> 1 * ?K" using w K by (simp only: mult_le_cancel_right_pos)
  then have "\<bar>init * ?K - T\<bar> \<le> ?K"
    using 0(1,2,3) by (auto simp add: algebra_simps abs_le_iff)
  then show ?case by (simp add: search_exit[OF w])
next
  case (Suc n)
  let ?K = "stepUpFV_real 1 Y (1 + r / 1200) (1 + s / 100)"
  show ?case
  proof (cases "hi - lo \<le> 1")
    case True
    have "(hi - lo) * ?K \<le> 1 * ?K" using True K by (simp only: mult_le_cancel_right_pos)
    then have "\<bar>init * ?K - T\<bar> \<le> ?K"
      using Suc.prems(1,2,3) by (auto simp add: algebra_simps abs_le_iff)
    then show ?thesis by (simp add: search_exit[OF True])
  next
    case False
    then have w: "1 < hi - lo" by simp
    let ?mid = "(lo + hi) / 2"
    have fv: "stepUpFV_real ?mid Y (1 + r / 1200) (1 + s / 100) = ?mid * ?K"
      by (rule stepUpFV_real_linear)
    have half: "hi - ?mid \<le> 2 ^ n" "?mid - lo \<le> 2 ^ n"
      using Suc.prems(4) by (simp_all add: field_simps)
    show ?thesis
    proof (cases "?mid * ?K < T")
      case True
      then have "?mid * ?K \<le> T" by simp
      from Suc.IH[OF this Suc.prems(2) _ half(1), of ?mid]
      show ?thesis using True by (simp add: search_low[OF x w] fv)
    next
      case False
      then have "T \<le> ?mid * ?K" by simp
      from Suc.IH[OF Suc.prems(1) this _ half(2), of ?mid]
      show ?thesis using False by (simp add: search_high[OF x w] fv)
    qed
  qed
qed

lemma bracket_from_one_year:
  assumes "0 \<le> T" "1 \<le> Y" "0 < r" "0 \<le> s"
  shows "returns_le (Some (Fin T))
           (calculateStepUpFutureValue (js_div (Fin T) (Fin 12)) (Fin Y) (Fin r) (Fin s))"
proof -
  have x: "0 < 1 + r / 1200" "1 \<le> 1 + r / 1200" using assms(3) by simp_all
  have g: "0 \<le> 1 + s / 100" using assms(4) by simp
  have "T / 12 * 12 \<le> T / 12 * stepUpFV_real 1 Y (1 + r / 1200) (1 + s / 100)"
    using stepUpFV_real_unit_ge_12[OF x(2) assms(2) g] assms(1)
    by (intro mult_left_mono) simp_all
  then have "T \<le> stepUpFV_real (T / 12) Y (1 + r / 1200) (1 + s / 100)"
    by (subst stepUpFV_real_linear) simp
  then show ?thesis
    by (simp add: returns_le_def js_ge_def not_less calculateStepUpFutureValue_fin[OF x(1)])
qed

lemma round_half: "\<bar>of_int \<lfloor>z + 1 / 2\<rfloor> - z\<bar> \<le> (1 / 2 :: real)"
  by linarith

lemma roundtrip_from_one_year:
  assumes "0 \<le> T" "1 \<le> Y" "0 < r" "0 \<le> s"
  shows "\<exists>p K v. calculateStepUpSIP (Fin T) (Fin Y) (Fin r) (Fin s) = Some (Fin p)
           \<and> calculateStepUpFutureValue (Fin 1) (Fin Y) (Fin r) (Fin s) = Some (Fin K)
           \<and> calculateStepUpFutureValue (Fin p) (Fin Y) (Fin r) (Fin s) = Some (Fin v)
           \<and> \<bar>v - T\<bar> \<le> 3 / 2 * K"
proof -
  let ?K = "stepUpFV_real 1 Y (1 + r / 1200) (1 + s / 100)"
  have x: "0 < 1 + r / 1200" "1 \<le> 1 + r / 1200" using assms(3) by simp_all
  have g: "0 \<le> 1 + s / 100" using assms(4) by simp
  have K12: "12 \<le> ?K" by (rule stepUpFV_real_unit_ge_12[OF x(2) assms(2) g])
  then have K: "0 < ?K" by simp
  have hi: "T \<le> T / 12 * ?K"
  proof -
    have "T / 12 * 12 \<le> T / 12 * ?K" using K12 assms(1) by (intro mult_left_mono) simp_all
    then show ?thesis by simp
  qed
  obtain n where n: "T / 12 - 0 \<le> 2 ^ n" using width_bound by blast
  have lo: "0 * ?K \<le> T" using assms(1) by simp
  obtain z where z: "stepUpSIP_search (Fin T) (Fin Y) (Fin r) (Fin s) (Fin 0) (Fin (T / 12)) (Fin 0)
                       = Some (Fin z)"
    and zK: "\<bar>z * ?K - T\<bar> \<le> ?K"
    using search_bracketed[OF x(1) K lo hi _ n, of 0] by auto
  let ?p = "of_int \<lfloor>z + 1 / 2\<rfloor> :: real"
  have p: "calculateStepUpSIP (Fin T) (Fin Y) (Fin r) (Fin s) = Some (Fin ?p)"
    by (simp add: calculateStepUpSIP_def z)
  have "\<bar>?p - z\<bar> * ?K \<le> 1 / 2 * ?K"
    using round_half[of z] K by (simp only: mult_le_cancel_right_pos)
  then have "\<bar>?p * ?K - z * ?K\<bar> \<le> 1 / 2 * ?K"
    using K by (simp add: abs_mult flip: left_diff_distrib)
  with zK have "\<bar>?p * ?K - T\<bar> \<le> 3 / 2 * ?K" by linarith
  then show ?thesis
    using p by (simp add: calculateStepUpFutureValue_fin[OF x(1)] stepUpFV_real_linear[of ?p])
qed

subsection \<open>Whole years without step-up\<close>

text \<open>For a whole number of years and no step-up the simulated schedule is the
  annuity-due of the closed form, and the two solvers agree up to one unit.\<close>

lemma year_block_shift: "year_block (Y + 1) x (Suc y) = year_block Y x y"
  by (simp add: year_block_def algebra_simps)

lemma geometric_12:
  "(x - 1) * (x ^ 12 + x ^ 11 + x ^ 10 + x ^ 9 + x ^ 8 + x ^ 7 + x ^ 6 + x ^ 5 + x ^ 4 + x ^ 3
      + x ^ 2 + x) = x * (x ^ 12 - 1)" for x :: real
  by algebra

lemma year_block_first:
  assumes "0 < x"
  shows "(x - 1) * year_block (Y + 1) x 0 = x powr (12 * Y) * (x * (x ^ 12 - 1))"
proof -
  have e: "x powr ((Y + 1 - real 0) * 12 - real m) = x powr (12 * Y) * x powr (12 - real m)" for m
    by (simp add: algebra_simps flip: powr_add)
  have "year_block (Y + 1) x 0 = x powr (12 * Y) * (\<Sum>m<12. x powr (12 - real m))"
    unfolding year_block_def e by (simp add: sum_distrib_left)
  also have "(\<Sum>m<12. x powr (12 - real m))
      = x ^ 12 + x ^ 11 + x ^ 10 + x ^ 9 + x ^ 8 + x ^ 7 + x ^ 6 + x ^ 5 + x ^ 4 + x ^ 3 + x ^ 2 + x"
    using assms by (simp add: sum12)
  finally show ?thesis using geometric_12[of x] by (simp add: mult.left_commute mult.assoc)
qed

lemma whole_years_closed:
  assumes "0 < x" "x \<noteq> 1"
  shows "stepUpFV_real 1 (real N) x 1 = (x powr (real N * 12) - 1) / (x - 1) * x"
proof (induction N)
  case 0
  show ?case by (simp add: stepUpFV_real_def)
next
  case (Suc N)
  have c: "nat \<lceil>real (Suc N)\<rceil> = Suc N" by (simp only: ceiling_of_nat nat_int)
  have "stepUpFV_real 1 (real (Suc N)) x 1 = (\<Sum>y<Suc N. year_block (real (Suc N)) x y)"
    unfolding stepUpFV_real_blocks c by simp
  also have "\<dots> = year_block (real (Suc N)) x 0 + (\<Sum>y<N. year_block (real (Suc N)) x (Suc y))"
    by (rule sum.lessThan_Suc_shift)
  also have "\<dots> = year_block (real N + 1) x 0 + (\<Sum>y<N. year_block (real N + 1) x (Suc y))"
    by (simp add: add.commute)
  also have "\<dots> = year_block (real N + 1) x 0 + stepUpFV_real 1 (real N) x 1"
    by (simp add: stepUpFV_real_blocks year_block_shift)
  finally have "(x - 1) * stepUpFV_real 1 (real (Suc N)) x 1
      = (x - 1) * year_block (real N + 1) x 0 + (x - 1) * stepUpFV_real 1 (real N) x 1"
    by (simp add: algebra_simps)
  also have "\<dots> = x powr (12 * real N) * (x * (x ^ 12 - 1)) + (x powr (real N * 12) - 1) * x"
    using assms(2) by (simp add: year_block_first[OF assms(1)] Suc.IH)
  also have "\<dots> = (x powr (real N * 12) * x ^ 12 - 1) * x"
    by (simp add: algebra_simps)
  also have "x powr (real N * 12) * x ^ 12 = x powr (real (Suc N) * 12)"
    using assms(1) by (simp add: algebra_simps powr_add)
  finally show ?case using assms(2) by (simp add: field_simps)
qed

lemma round_close:
  assumes "\<bar>a - b\<bar> \<le> (1::real)"
  shows "\<bar>of_int \<lfloor>a + 1 / 2\<rfloor> - of_int \<lfloor>b + 1 / 2\<rfloor>\<bar> \<le> (1::real)"
proof -
  have "real_of_int \<lfloor>a + 1 / 2\<rfloor> < real_of_int (\<lfloor>b + 1 / 2\<rfloor> + 2)"
    and "real_of_int \<lfloor>b + 1 / 2\<rfloor> < real_of_int (\<lfloor>a + 1 / 2\<rfloor> + 2)"
    using assms by linarith+
  then have "\<lfloor>a + 1 / 2\<rfloor> < \<lfloor>b + 1 / 2\<rfloor> + 2" "\<lfloor>b + 1 / 2\<rfloor> < \<lfloor>a + 1 / 2\<rfloor> + 2"
    by (simp_all only: of_int_less_iff)
  then have "\<bar>\<lfloor>a + 1 / 2\<rfloor> - \<lfloor>b + 1 / 2\<rfloor>\<bar> \<le> 1" by linarith
  then have "\<bar>real_of_int (\<lfloor>a + 1 / 2\<rfloor> - \<lfloor>b + 1 / 2\<rfloor>)\<bar> \<le> real_of_int 1"
    by (simp only: of_int_le_iff flip: of_int_abs)
  then show ?thesis by simp
qed

lemma level_reduction_whole_years:
  assumes "0 < T" "1 \<le> Y" "is_integral Y" "0 < r"
  shows "\<exists>p q. calculateStepUpSIP (Fin T) (Fin Y) (Fin r) (Fin 0) = Some (Fin p)
           \<and> calculateMonthlySIP (Fin T) (Fin Y) (Fin r) (Fin 0) = Some (Fin q)
           \<and> \<bar>p - q\<bar> \<le> 1"
proof -
  let ?x = "1 + r / 1200"
  let ?K = "stepUpFV_real 1 Y ?x (1 + 0 / 100)"
  let ?F = "(?x powr (Y * 12) - 1) / (r / 1200) * ?x"
  have x: "0 < ?x" "1 \<le> ?x" "?x \<noteq> 1" using assms(4) by simp_all
  obtain N where N: "Y = real N"
  proof
    show "Y = real (nat \<lfloor>Y\<rfloor>)" using assms(2,3) by (simp add: is_integral_def)
  qed
  have KF: "?K = ?F"
    using whole_years_closed[OF x(1,3), of N] by (simp add: N)
  have K12: "12 \<le> ?K" by (rule stepUpFV_real_unit_ge_12[OF x(2) assms(2)]) simp
  then have K: "0 < ?K" by simp
  have hi: "T \<le> T / 12 * ?K"
  proof -
    have "T / 12 * 12 \<le> T / 12 * ?K" using K12 assms(1) by (intro mult_left_mono) simp_all
    then show ?thesis by simp
  qed
  obtain n where n: "T / 12 - 0 \<le> 2 ^ n" using width_bound by blast
  have lo: "0 * ?K \<le> T" using assms(1) by simp
  obtain z where z: "stepUpSIP_search (Fin T) (Fin Y) (Fin r) (Fin 0) (Fin 0) (Fin (T / 12)) (Fin 0)
                       = Some (Fin z)"
    and zK: "\<bar>z * ?K - T\<bar> \<le> ?K"
    using search_bracketed[OF x(1) K lo hi _ n, of 0] by auto
  have "z - T / ?K = (z * ?K - T) / ?K" using K by (simp add: field_simps)
  then have "\<bar>z - T / ?K\<bar> = \<bar>z * ?K - T\<bar> / ?K" using K by (simp add: abs_divide)
  also have "\<dots> \<le> 1" using zK K by (simp only: divide_le_eq_1_pos)
  finally have close: "\<bar>z - T / ?K\<bar> \<le> 1" .
  have p: "calculateStepUpSIP (Fin T) (Fin Y) (Fin r) (Fin 0) = Some (Fin (of_int \<lfloor>z + 1 / 2\<rfloor>))"
    by (simp add: calculateStepUpSIP_def z)
  have Y0: "Y \<noteq> 0" "T \<noteq> 0" "r \<noteq> 0" using assms by simp_all
  have q: "calculateMonthlySIP (Fin T) (Fin Y) (Fin r) (Fin 0)
             = Some (Fin (of_int \<lfloor>T / ?K + 1 / 2\<rfloor>))"
    unfolding KF by (rule calculateMonthlySIP_fin(1)[OF Y0(2) Y0(1) Y0(3) x(1)])
  show ?thesis
    using p q round_close[OF close] by blast
qed

section \<open>Horizons under one year\<close>

lemma quarter_upper: "stepUpFV_real 1 (1 / 4) (101 / 100) g < 11713 / 1000"
  by (simp add: stepUpFV_real_def ceil_quarter sum12 powr_minus power_divide)

lemma quarter_below:
  assumes "0 < c" "c * 11713 \<le> 1000 * T"
  shows "stepUpFV_real c (1 / 4) (101 / 100) g < T"
proof -
  have "c * stepUpFV_real 1 (1 / 4) (101 / 100) g < c * (11713 / 1000)"
    using quarter_upper[of g] assms(1) by (simp only: mult_less_cancel_left_pos)
  also have "\<dots> \<le> T" using assms(2) by simp
  finally show ?thesis by (subst stepUpFV_real_linear)
qed

lemma solver_quarter:
  "calculateStepUpSIP (Fin 1536) (Fin (1 / 4)) (Fin 12) (Fin 10) = Some (Fin 127)"
proof -
  have x: "(0::real) < 1 + 12 / 1200" by simp
  have "stepUpSIP_search (Fin 1536) (Fin (1 / 4)) (Fin 12) (Fin 10) (Fin 0) (Fin 128) (Fin 0)
      = stepUpSIP_search (Fin 1536) (Fin (1 / 4)) (Fin 12) (Fin 10) (Fin 64) (Fin 128) (Fin 64)"
    by (subst search_low[OF x]) (simp_all add: quarter_below)
  also have "\<dots> = stepUpSIP_search (Fin 1536) (Fin (1 / 4)) (Fin 12) (Fin 10) (Fin 96) (Fin 128) (Fin 96)"
    by (subst search_low[OF x]) (simp_all add: quarter_below)
  also have "\<dots> = stepUpSIP_search (Fin 1536) (Fin (1 / 4)) (Fin 12) (Fin 10) (Fin 112) (Fin 128) (Fin 112)"
    by (subst search_low[OF x]) (simp_all add: quarter_below)
  also have "\<dots> = stepUpSIP_search (Fin 1536) (Fin (1 / 4)) (Fin 12) (Fin 10) (Fin 120) (Fin 128) (Fin 120)"
    by (subst search_low[OF x]) (simp_all add: quarter_below)
  also have "\<dots> = stepUpSIP_search (Fin 1536) (Fin (1 / 4)) (Fin 12) (Fin 10) (Fin 124) (Fin 128) (Fin 124)"
    by (subst search_low[OF x]) (simp_all add: quarter_below)
  also have "\<dots> = stepUpSIP_search (Fin 1536) (Fin (1 / 4)) (Fin 12) (Fin 10) (Fin 126) (Fin 128) (Fin 126)"
    by (subst search_low[OF x]) (simp_all add: quarter_below)
  also have "\<dots> = stepUpSIP_search (Fin 1536) (Fin (1 / 4)) (Fin 12) (Fin 10) (Fin 127) (Fin 128) (Fin 127)"
    by (subst search_low[OF x]) (simp_all add: quarter_below)
  also have "\<dots> = Some (Fin 127)"
    by (subst search_exit) simp_all
  finally show ?thesis
    by (simp add: calculateStepUpSIP_def floor_eq_iff)
qed

lemma ceil_half: "nat \<lceil>1 / 2 :: real\<rceil> = 1"
proof -
  have "\<lceil>1 / 2 :: real\<rceil> = 1" by (rule ceiling_unique) simp_all
  then show ?thesis by simp
qed

lemma half_upper: "stepUpFV_real 1 (1 / 2) (101 / 100) g < 12067 / 1000"
  by (simp add: stepUpFV_real_def ceil_half sum12 powr_minus power_divide)

lemma half_below:
  assumes "0 < c" "c * 12067 \<le> 1000 * T"
  shows "stepUpFV_real c (1 / 2) (101 / 100) g < T"
proof -
  have "c * stepUpFV_real 1 (1 / 2) (101 / 100) g < c * (12067 / 1000)"
    using half_upper[of g] assms(1) by (simp only: mult_less_cancel_left_pos)
  also have "\<dots> \<le> T" using assms(2) by simp
  finally show ?thesis by (subst stepUpFV_real_linear)
qed

lemma solver_half:
  "calculateStepUpSIP (Fin 1200) (Fin (1 / 2)) (Fin 12) (Fin 0) = Some (Fin 99)"
proof -
  have x: "(0::real) < 1 + 12 / 1200" by simp
  have "stepUpSIP_search (Fin 1200) (Fin (1 / 2)) (Fin 12) (Fin 0) (Fin 0) (Fin 100) (Fin 0)
      = stepUpSIP_search (Fin 1200) (Fin (1 / 2)) (Fin 12) (Fin 0) (Fin 50) (Fin 100) (Fin 50)"
    by (subst search_low[OF x]) (simp_all add: half_below)
  also have "\<dots> = stepUpSIP_search (Fin 1200) (Fin (1 / 2)) (Fin 12) (Fin 0)
                       (Fin 75) (Fin 100) (Fin 75)"
    by (subst search_low[OF x]) (simp_all add: half_below)
  also have "\<dots> = stepUpSIP_search (Fin 1200) (Fin (1 / 2)) (Fin 12) (Fin 0)
                       (Fin (175 / 2)) (Fin 100) (Fin (175 / 2))"
    by (subst search_low[OF x]) (simp_all add: half_below)
  also have "\<dots> = stepUpSIP_search (Fin 1200) (Fin (1 / 2)) (Fin 12) (Fin 0)
                       (Fin (375 / 4)) (Fin 100) (Fin (375 / 4))"
    by (subst search_low[OF x]) (simp_all add: half_below)
  also have "\<dots> = stepUpSIP_search (Fin 1200) (Fin (1 / 2)) (Fin 12) (Fin 0)
                       (Fin (775 / 8)) (Fin 100) (Fin (775 / 8))"
    by (subst search_low[OF x]) (simp_all add: half_below)
  also have "\<dots> = stepUpSIP_search (Fin 1200) (Fin (1 / 2)) (Fin 12) (Fin 0)
                       (Fin (1575 / 16)) (Fin 100) (Fin (1575 / 16))"
    by (subst search_low[OF x]) (simp_all add: half_below)
  also have "\<dots> = stepUpSIP_search (Fin 1200) (Fin (1 / 2)) (Fin 12) (Fin 0)
                       (Fin (3175 / 32)) (Fin 100) (Fin (3175 / 32))"
    by (subst search_low[OF x]) (simp_all add: half_below)
  also have "\<dots> = Some (Fin (3175 / 32))"
    by (subst search_exit) simp_all
  finally show ?thesis
    by (simp add: calculateStepUpSIP_def floor_eq_iff)
qed

lemma level_half:
  "calculateMonthlySIP (Fin 1200) (Fin (1 / 2)) (Fin 12) (Fin 0) = Some (Fin 193)"
  by (simp add: calculateMonthlySIP_def js_eq_def js_not_def Let_def js_sub_def fin_pow_def
                is_integral_def floor_eq_iff power_divide)

text \<open>
  Claim C3 says that \<^verbatim>\<open>high = targetAmount / 12\<close> overshoots the target for all
  \<open>years > 0\<close> and that the bracket
  \<^verbatim>\<open>calculateStepUpFutureValue(low) <= targetAmount <= calculateStepUpFutureValue(high)\<close>
  holds around every pass. The code does not meet it on a horizon of a quarter of a
  year: for the target 1536 at 12 percent with a step-up of 10 percent, the future
  value of \<open>high = 128\<close> is below the target (\<open>bracket_from_one_year\<close> shows that the
  bound does overshoot from one year on).
\<close>

theorem bracket_quarter_year:
  "returns_less (calculateStepUpFutureValue (js_div (Fin 1536) (Fin 12)) (Fin (1 / 4)) (Fin 12) (Fin 10))
                (Some (Fin 1536))"
  by (simp add: returns_less_def calculateStepUpFutureValue_fin quarter_below)

text \<open>
  Claim C1 says that the future value of the solver's result recovers the target up to
  the search tolerance of one unit, scaled for the rounding. The code does not meet it
  on a horizon of a quarter of a year: for the target 1536 at 12 percent with a step-up
  of 10 percent the solver returns 127, whose future value is below 1488, and even a
  contribution of 131 stays below the target (\<open>roundtrip_from_one_year\<close> shows the
  round trip from one year on).
\<close>

theorem roundtrip_quarter_year:
  "calculateStepUpSIP (Fin 1536) (Fin (1 / 4)) (Fin 12) (Fin 10) = Some (Fin 127)
   \<and> returns_less (calculateStepUpFutureValue (Fin 127) (Fin (1 / 4)) (Fin 12) (Fin 10))
                  (Some (Fin 1488))
   \<and> returns_less (calculateStepUpFutureValue (Fin 131) (Fin (1 / 4)) (Fin 12) (Fin 10))
                  (Some (Fin 1536))"
  by (simp add: solver_quarter returns_less_def calculateStepUpFutureValue_fin quarter_below)

text \<open>
  Claim C2 says that the step-up solver with \<^verbatim>\<open>stepUpRate = 0\<close> agrees with the closed
  form up to one unit for all \<open>years > 0\<close>. The code does not meet it on a horizon of
  half a year: for the target 1200 at 12 percent the step-up solver returns 99, because
  its oracle simulates twelve contributions, and the closed form returns 193, for six
  (\<open>level_reduction_whole_years\<close> shows the agreement for whole years).
\<close>

theorem level_reduction_half_year:
  "calculateStepUpSIP (Fin 1200) (Fin (1 / 2)) (Fin 12) (Fin 0) = Some (Fin 99)
   \<and> calculateMonthlySIP (Fin 1200) (Fin (1 / 2)) (Fin 12) (Fin 0) = Some (Fin 193)"
  using solver_half level_half by simp

section \<open>An infinite target\<close>

lemma js_add_PInf: "z \<noteq> NaN \<Longrightarrow> z \<noteq> NInf \<Longrightarrow> js_add z PInf = PInf"
  by (cases z) simp_all

lemma months_fold_inf:
  assumes "0 < 1 + mr" "fv \<noteq> NaN" "fv \<noteq> NInf"
  shows "fold (\<lambda>month fv.
             let totalMonths = js_sub (Fin rem) (Fin (real month))
             in js_add fv (js_mul PInf (js_pow (js_add (Fin 1) (Fin mr)) totalMonths)))
          [0..<Suc k] fv = PInf"
proof (induction k)
  case 0
  show ?case using assms
    by (simp add: js_sub_def js_pow_pos signed_inf_def js_add_PInf del: js_pow.simps)
next
  case (Suc k)
  have "[0..<Suc (Suc k)] = [0..<Suc k] @ [Suc k]" by simp
  then show ?case using assms(1) Suc
    by (simp add: js_sub_def js_pow_pos signed_inf_def del: js_pow.simps upt_Suc)
qed

lemma stepUpFV_months_inf:
  assumes "0 < 1 + mr" "fv \<noteq> NaN" "fv \<noteq> NInf"
  shows "stepUpFV_months PInf (Fin mr) (Fin rem) fv = PInf"
proof -
  have "[0..<12] = [0..<Suc 11]" by simp
  then show ?thesis
    unfolding stepUpFV_months_def using months_fold_inf[OF assms, of rem 11] by simp
qed

lemma stepUpFV_years_inf:
  assumes "0 < 1 + mr" "0 < 1 + st" "fv \<noteq> NaN" "fv \<noteq> NInf"
  shows "stepUpFV_years (Fin Y) (Fin mr) (Fin st) year fv PInf
           = Some (if real year < Y then PInf else fv)"
  using assms(3,4)
proof (induction "nat \<lceil>Y\<rceil> - year" arbitrary: year fv)
  case 0
  then have "\<not> real year < Y" by linarith
  then show ?case
    by (subst stepUpFV_years.simps) simp
next
  case (Suc n)
  then have lt: "real year < Y" by linarith
  have n: "n = nat \<lceil>Y\<rceil> - Suc year" using Suc.hyps(2) by simp
  have st: "1 + st \<noteq> 0" using assms(2) by simp
  have "stepUpFV_years (Fin Y) (Fin mr) (Fin st) (Suc year) PInf PInf = Some PInf"
    using Suc.hyps(1)[OF n, of PInf] by (simp split: if_splits)
  then show ?case
    by (subst stepUpFV_years.simps)
       (simp add: lt js_sub_def stepUpFV_months_inf[OF assms(1) Suc.prems] signed_inf_def
                  assms(2) st del: of_nat_Suc)
qed

lemma calculateStepUpFutureValue_inf:
  assumes "0 < Y" "0 < 1 + r / 1200" "0 < 1 + s / 100"
  shows "calculateStepUpFutureValue PInf (Fin Y) (Fin r) (Fin s) = Some PInf"
proof -
  have "0 < 1 + r / 12 / 100" using assms(2) by simp
  from stepUpFV_years_inf[OF this assms(3), of "Fin 0" Y 0] assms(1)
  show ?thesis by (simp add: calculateStepUpFutureValue_def)
qed

lemma search_never_returns:
  assumes "0 < Y" "0 < 1 + r / 1200" "0 < 1 + s / 100"
  shows "stepUpSIP_search PInf (Fin Y) (Fin r) (Fin s) (Fin 0) PInf init = None"
proof (rule ccontr)
  assume "stepUpSIP_search PInf (Fin Y) (Fin r) (Fin s) (Fin 0) PInf init \<noteq> None"
  then obtain v where ret:
    "stepUpSIP_search PInf (Fin Y) (Fin r) (Fin s) (Fin 0) PInf init = Some v"
    by auto
  have "\<not> (PInf = PInf \<and> Fin Y = Fin Y \<and> Fin r = Fin r \<and> Fin s = Fin s
                 \<and> Fin 0 = Fin 0 \<and> PInf = PInf)"
  proof (rule stepUpSIP_search.raw_induct[where P =
      "\<lambda>T y' r' s' lo hi i v. \<not> (T = PInf \<and> y' = Fin Y \<and> r' = Fin r \<and> s' = Fin s
                 \<and> lo = Fin 0 \<and> hi = PInf)", OF _ ret])
    fix f :: "jsnum \<Rightarrow> jsnum \<Rightarrow> jsnum \<Rightarrow> jsnum \<Rightarrow> jsnum \<Rightarrow> jsnum \<Rightarrow> jsnum \<Rightarrow> jsnum option"
    fix T y' r' s' lo hi i v
    assume IH: "\<And>T y' r' s' lo hi i v. f T y' r' s' lo hi i = Some v \<Longrightarrow>
        \<not> (T = PInf \<and> y' = Fin Y \<and> r' = Fin r \<and> s' = Fin s \<and> lo = Fin 0 \<and> hi = PInf)"
    assume body: "(if js_gt (js_sub hi lo) tolerance
      then let mid = js_div (js_add lo hi) (Fin 2)
           in calculateStepUpFutureValue mid y' r' s' \<bind>
              (\<lambda>fv. if js_lt fv T then f T y' r' s' mid hi mid else f T y' r' s' lo mid mid)
      else Some i) = Some v"
    show "\<not> (T = PInf \<and> y' = Fin Y \<and> r' = Fin r \<and> s' = Fin s \<and> lo = Fin 0 \<and> hi = PInf)"
    proof
      assume b: "T = PInf \<and> y' = Fin Y \<and> r' = Fin r \<and> s' = Fin s \<and> lo = Fin 0 \<and> hi = PInf"
      with body have "f PInf (Fin Y) (Fin r) (Fin s) (Fin 0) PInf PInf = Some v"
        by (simp add: js_gt_def js_sub_def tolerance_def Let_def
                      calculateStepUpFutureValue_inf[OF assms])
      from IH[OF this] show False by simp
    qed
  qed
  then show False by simp
qed

text \<open>
  Claim C8 says that \<^verbatim>\<open>calculateStepUpSIP\<close> returns for every input. The code does not
  meet it at \<^verbatim>\<open>targetAmount = Infinity\<close>: the bracket \<open>[0, Infinity]\<close> has the midpoint
  \<^verbatim>\<open>Infinity\<close>, whose future value \<^verbatim>\<open>Infinity\<close> is not below the target, so \<^verbatim>\<open>high\<close> stays
  \<^verbatim>\<open>Infinity\<close> and the loop never ends (\<open>calculateStepUpSIP_returns\<close> shows that in exact
  arithmetic the solver returns for every other target when \<^verbatim>\<open>years\<close> is not
  \<^verbatim>\<open>Infinity\<close>).
\<close>

theorem solver_diverges_at_infinity:
  "calculateStepUpSIP PInf (Fin 1) (Fin 12) (Fin 10) = None"
  by (simp add: calculateStepUpSIP_def search_never_returns)

end
